theory Spec2Isabelle
  imports Main "HOL-Library.AList"
begin

section \<open>Python values used by the analysis script\<close>

text \<open>
  A Python \<open>str\<close> is modelled as the list of its Unicode code points, so that the
  substring tests of \<open>app.py\<close> (\<open>marker in text\<close>) and \<open>str.strip\<close> mean what they
  mean in Python.  A value that may be \<open>None\<close> (the result of a vendor call) is a
  \<open>pystr option\<close>.
\<close>

type_synonym pystr = "nat list"

text \<open>\<open>sub in s\<close> for two strings: \<open>sub\<close> occurs in \<open>s\<close> as a contiguous substring.\<close>

fun py_in :: "pystr \<Rightarrow> pystr \<Rightarrow> bool" where
  "py_in sub [] = (sub = [])"
| "py_in sub (c # cs) = (take (length sub) (c # cs) = sub \<or> py_in sub cs)"

text \<open>The code points for which \<open>str.isspace\<close> holds; \<open>str.strip()\<close> removes them at both ends.\<close>

definition isspace :: "nat \<Rightarrow> bool" where
  "isspace c = (c \<in> set [0x9, 0xA, 0xB, 0xC, 0xD, 0x1C, 0x1D, 0x1E, 0x1F, 0x20, 0x85, 0xA0,
     0x1680, 0x2000, 0x2001, 0x2002, 0x2003, 0x2004, 0x2005, 0x2006, 0x2007, 0x2008,
     0x2009, 0x200A, 0x2028, 0x2029, 0x202F, 0x205F, 0x3000])"

definition strip :: "pystr \<Rightarrow> pystr" where
  "strip s = rev (dropWhile isspace (rev (dropWhile isspace s)))"

text \<open>\<open>sep.join(parts)\<close>.\<close>

fun join :: "pystr \<Rightarrow> pystr list \<Rightarrow> pystr" where
  "join sep [] = []"
| "join sep [x] = x"
| "join sep (x # y # ys) = x @ sep @ join sep (y # ys)"

text \<open>
  A \<open>dict\<close> keeps insertion order and has unique keys: an association list.
  \<open>d[k] = v\<close> is \<^const>\<open>AList.update\<close> (an existing key keeps its place, a new key goes to
  the end), \<open>k in d\<close> is \<open>map_of d k \<noteq> None\<close>, and a dict comprehension with a filter
  is \<^const>\<open>filter\<close> over the items.
\<close>

type_synonym ('k, 'v) dict = "('k \<times> 'v) list"

datatype py_error = TypeError

section \<open>String constants of the script\<close>

text \<open>
  The markers the script puts into a response text when a call raises, and looks for
  later: \<open>error_marker\<close> is the literal of lines 306 and 340, \<open>cross_mark\<close> (the single
  code point U+274C) the literal of lines 387 and 418.  \<open>error_prefix\<close> (lines 296, 332)
  and \<open>review_error_prefix\<close> (line 369) are the constant parts of the f-strings that
  are stored when a call raises.  The remaining constants are the constant parts of
  the prompt f-strings, in the order in which they occur in the source.
\<close>

definition cross_mark :: pystr where
  "cross_mark = [0x274C]"

definition error_marker :: pystr where
  "error_marker = [0x274C, 0x20, 0xC624, 0xB958, 0x20, 0xBC1C, 0xC0DD]"

definition initial_prompt_head :: pystr where
  "initial_prompt_head =
    [0xB2E4, 0xC74C, 0x20, 0xB17C, 0xBB38, 0x20, 0xAD00, 0xB828, 0x20, 0xB0B4, 0xC6A9, 0xC744,
     0x20, 0xBD84, 0xC11D, 0xD574, 0xC8FC, 0xC138, 0xC694, 0x2E, 0x20, 0xC5F0, 0xAD6C, 0xC790,
     0x20, 0xAD00, 0xC810, 0xC5D0, 0xC11C, 0x20, 0xD575, 0xC2EC, 0xC744, 0x20, 0xC9DA, 0xC5B4,
     0xC8FC, 0xC138, 0xC694, 0x2E, 0xA, 0xA, 0x2D, 0x2D, 0x2D, 0xA]"

definition initial_prompt_tail :: pystr where
  "initial_prompt_tail =
    [0xA, 0x2D, 0x2D, 0x2D, 0xA]"

definition error_prefix :: pystr where
  "error_prefix =
    [0x274C, 0x20, 0xC624, 0xB958, 0x20, 0xBC1C, 0xC0DD, 0x3A, 0x20]"

definition review_prompt_1 :: pystr where
  "review_prompt_1 =
    [0xB2E4, 0xC74C, 0xC740, 0x20, 0xB2E4, 0xB978, 0x20, 0x41, 0x49, 0xC758, 0x20, 0xB17C,
     0xBB38, 0x20, 0xBD84, 0xC11D, 0x20, 0xB2F5, 0xBCC0, 0xC785, 0xB2C8, 0xB2E4, 0x2E, 0xA,
     0xB2F9, 0xC2E0, 0xC758, 0x20, 0xC5ED, 0xD560, 0x3A, 0x20, 0x2A, 0x2A, 0xBE44, 0xD3C9,
     0xAC00, 0x2A, 0x2A, 0x2E, 0x20, 0xC774, 0x20, 0xB2F5, 0xBCC0, 0xC5D0, 0xC11C, 0x20,
     0xB17C, 0xB9AC, 0xC801, 0x20, 0xC624, 0xB958, 0x2C, 0x20, 0xBE60, 0xC9C4, 0x20, 0xB370,
     0xC774, 0xD130, 0x2C, 0x20, 0xBD80, 0xC871, 0xD55C, 0x20, 0xADFC, 0xAC70, 0x2C, 0x20,
     0xB610, 0xB294, 0x20, 0xAC1C, 0xC120, 0xC774, 0x20, 0xD544, 0xC694, 0xD55C, 0x20, 0xBD80,
     0xBD84, 0xC744, 0x20, 0xAD6C, 0xCCB4, 0xC801, 0xC73C, 0xB85C, 0x20, 0xC9C0, 0xC801, 0xD574,
     0xC8FC, 0xC138, 0xC694, 0x2E, 0xA, 0xA, 0x2A, 0x2A, 0xAC80, 0xD1A0, 0x20, 0xB300,
     0xC0C1, 0x20, 0xB2F5, 0xBCC0, 0x20, 0x28, 0xC791, 0xC131, 0x3A, 0x20]"

definition review_prompt_2 :: pystr where
  "review_prompt_2 =
    [0x29, 0x3A, 0x2A, 0x2A, 0xA, 0x2D, 0x2D, 0x2D, 0xA]"

definition review_prompt_3 :: pystr where
  "review_prompt_3 =
    [0xA, 0x2D, 0x2D, 0x2D, 0xA, 0x2A, 0x2A, 0xC9C0, 0xC801, 0x20, 0xC0AC, 0xD56D,
     0x20, 0x28, 0x62, 0x75, 0x6C, 0x6C, 0x65, 0x74, 0x20, 0x70, 0x6F, 0x69,
     0x6E, 0x74, 0xB85C, 0x20, 0xAD6C, 0xCCB4, 0xC801, 0xC73C, 0xB85C, 0x29, 0x3A, 0x2A,
     0x2A, 0xA]"

definition review_error_prefix :: pystr where
  "review_error_prefix =
    [0x274C, 0x20, 0xAC80, 0xD1A0, 0x20, 0xC624, 0xB958, 0x3A, 0x20]"

definition revise_prompt_1 :: pystr where
  "revise_prompt_1 =
    [0xB2F9, 0xC2E0, 0xC758, 0x20, 0xCD08, 0xAE30, 0x20, 0xB2F5, 0xBCC0, 0xC5D0, 0x20, 0xB300,
     0xD55C, 0x20, 0xAC80, 0xD1A0, 0xC790, 0xAC00, 0x20, 0xC9C0, 0xC801, 0xD55C, 0x20, 0xB0B4,
     0xC6A9, 0xC774, 0x20, 0xC788, 0xC2B5, 0xB2C8, 0xB2E4, 0x2E, 0xA, 0xC774, 0x20, 0xC9C0,
     0xC801, 0xC744, 0x20, 0x2A, 0x2A, 0xC218, 0xC6A9, 0xD558, 0xC5EC, 0x2A, 0x2A, 0x20,
     0xC218, 0xC815, 0xB41C, 0x20, 0xCD5C, 0xC885, 0x20, 0xB2F5, 0xBCC0, 0xC744, 0x20, 0xC791,
     0xC131, 0xD574, 0xC8FC, 0xC138, 0xC694, 0x2E, 0x20, 0xC9C0, 0xC801, 0xC774, 0x20, 0xD0C0,
     0xB2F9, 0xD558, 0xC9C0, 0x20, 0xC54A, 0xB2E4, 0xACE0, 0x20, 0xD310, 0xB2E8, 0xB418, 0xBA74,
     0x20, 0xADF8, 0x20, 0xC774, 0xC720, 0xB97C, 0x20, 0x62, 0x72, 0x69, 0x65, 0x66,
     0x6C, 0x79, 0x20, 0xC124, 0xBA85, 0xD558, 0xACE0, 0x20, 0xC720, 0xC9C0, 0xD574, 0xB3C4,
     0x20, 0xB429, 0xB2C8, 0xB2E4, 0x2E, 0xA, 0xA, 0x2A, 0x2A, 0xB2F9, 0xC2E0, 0xC758,
     0x20, 0xCD08, 0xAE30, 0x20, 0xB2F5, 0xBCC0, 0x3A, 0x2A, 0x2A, 0xA, 0x2D, 0x2D,
     0x2D, 0xA]"

definition revise_prompt_2 :: pystr where
  "revise_prompt_2 =
    [0xA, 0x2D, 0x2D, 0x2D, 0xA, 0xA, 0x2A, 0x2A, 0xAC80, 0xD1A0, 0xC790, 0x20,
     0x28]"

definition revise_prompt_3 :: pystr where
  "revise_prompt_3 =
    [0x29, 0xC758, 0x20, 0xC9C0, 0xC801, 0x3A, 0x2A, 0x2A, 0xA, 0x2D, 0x2D, 0x2D,
     0xA]"

definition revise_prompt_4 :: pystr where
  "revise_prompt_4 =
    [0xA, 0x2D, 0x2D, 0x2D, 0xA, 0xA, 0x2A, 0x2A, 0xC218, 0xC815, 0xB41C, 0x20,
     0xCD5C, 0xC885, 0x20, 0xB2F5, 0xBCC0, 0x3A, 0x2A, 0x2A, 0xA]"

definition response_text_1 :: pystr where
  "response_text_1 =
    [0x2A, 0x2A, 0x3010]"

definition response_text_2 :: pystr where
  "response_text_2 =
    [0x3011, 0xC758, 0x20, 0xB2F5, 0xBCC0, 0x3A, 0x2A, 0x2A, 0xA]"

definition consensus_prompt_1 :: pystr where
  "consensus_prompt_1 =
    [0xB2E4, 0xC74C, 0xC740, 0x20, 0xB3D9, 0xC77C, 0xD55C, 0x20, 0xB17C, 0xBB38, 0x2F, 0xC9C8,
     0xBB38, 0xC5D0, 0x20, 0xB300, 0xD55C, 0x20, 0xC5EC, 0xB7EC, 0x20, 0x41, 0x49, 0xC758,
     0x20, 0xBD84, 0xC11D, 0x20, 0xACB0, 0xACFC, 0xC785, 0xB2C8, 0xB2E4, 0x2E, 0xA, 0xACF5,
     0xD1B5, 0xC810, 0xACFC, 0x20, 0xCC28, 0xC774, 0xC810, 0xC744, 0x20, 0xC815, 0xB9AC, 0xD558,
     0xACE0, 0x2C, 0x20, 0xC5F0, 0xAD6C, 0xC790, 0xC5D0, 0xAC8C, 0x20, 0xAC00, 0xC7A5, 0x20,
     0xC720, 0xC6A9, 0xD55C, 0x20, 0xCD5C, 0xC885, 0x20, 0xAD8C, 0xC7A5, 0x20, 0xBD84, 0xC11D,
     0xC744, 0x20, 0xC791, 0xC131, 0xD574, 0xC8FC, 0xC138, 0xC694, 0x2E, 0x20, 0xD55C, 0xAD6D,
     0xC5B4, 0xB85C, 0x20, 0xB2F5, 0xBCC0, 0xD574, 0xC8FC, 0xC138, 0xC694, 0x2E, 0xA, 0xA,
     0x2A, 0x2A, 0xC6D0, 0xBCF8, 0x20, 0xC785, 0xB825, 0x3A, 0x2A, 0x2A, 0xA]"

definition consensus_prompt_2 :: pystr where
  "consensus_prompt_2 =
    [0xA, 0xA, 0x2D, 0x2D, 0x2D, 0xA, 0x2A, 0x2A, 0xAC01, 0x20, 0x41, 0x49,
     0xC758, 0x20, 0xBD84, 0xC11D, 0x3A, 0x2A, 0x2A, 0xA]"

definition consensus_prompt_3 :: pystr where
  "consensus_prompt_3 =
    [0xA, 0x2D, 0x2D, 0x2D, 0xA, 0xA, 0xB2E4, 0xC74C, 0x20, 0xD615, 0xC2DD, 0xC73C,
     0xB85C, 0x20, 0x43, 0x6F, 0x6E, 0x73, 0x65, 0x6E, 0x73, 0x75, 0x73, 0x20,
     0x52, 0x65, 0x70, 0x6F, 0x72, 0x74, 0xB97C, 0x20, 0xC791, 0xC131, 0xD574, 0xC8FC,
     0xC138, 0xC694, 0x3A, 0xA, 0xA, 0x23, 0x23, 0x20, 0xACF5, 0xD1B5, 0xC810, 0xA,
     0x2D, 0x20, 0xC5EC, 0xB7EC, 0x20, 0x41, 0x49, 0xAC00, 0x20, 0xC77C, 0xCE58, 0xD558,
     0xB294, 0x20, 0xB0B4, 0xC6A9, 0xC744, 0x20, 0x62, 0x75, 0x6C, 0x6C, 0x65, 0x74,
     0x20, 0x70, 0x6F, 0x69, 0x6E, 0x74, 0xB85C, 0x20, 0xB098, 0xC5F4, 0xA, 0xA,
     0x23, 0x23, 0x20, 0xCC28, 0xC774, 0xC810, 0xA, 0x2D, 0x20, 0x41, 0x49, 0xBCC4,
     0xB85C, 0x20, 0xAD00, 0xC810, 0xC774, 0xB098, 0x20, 0xAC15, 0xC870, 0xC810, 0xC774, 0x20,
     0xB2E4, 0xB978, 0x20, 0xBD80, 0xBD84, 0xC744, 0x20, 0x62, 0x75, 0x6C, 0x6C, 0x65,
     0x74, 0x20, 0x70, 0x6F, 0x69, 0x6E, 0x74, 0xB85C, 0x20, 0xB098, 0xC5F4, 0xA,
     0xA, 0x23, 0x23, 0x20, 0xCD5C, 0xC885, 0x20, 0xAD8C, 0xC7A5, 0x20, 0xBD84, 0xC11D,
     0xA, 0x2D, 0x20, 0xB17C, 0xBB38, 0x20, 0xC5F0, 0xAD6C, 0xB098, 0x20, 0xD6C4, 0xC18D,
     0x20, 0xC5F0, 0xAD6C, 0xC5D0, 0x20, 0xD65C, 0xC6A9, 0xD558, 0xAE30, 0xC5D0, 0x20, 0xAC00,
     0xC7A5, 0x20, 0xC801, 0xD569, 0xD55C, 0x20, 0xC885, 0xD569, 0xC801, 0xC778, 0x20, 0xBD84,
     0xC11D, 0x20, 0xBC0F, 0x20, 0xAD8C, 0xC7A5, 0x20, 0xC0AC, 0xD56D, 0xC744, 0x20, 0xC81C,
     0xC2DC, 0xA]"

section \<open>Prompts\<close>

text \<open>The f-strings of lines 287, 356, 391, 434 and 439, with their holes as arguments.\<close>

definition initial_prompt :: "pystr \<Rightarrow> pystr" where
  "initial_prompt user_input = initial_prompt_head @ user_input @ initial_prompt_tail"

definition review_prompt :: "pystr \<Rightarrow> pystr \<Rightarrow> pystr" where
  "review_prompt author_name author_resp =
     review_prompt_1 @ author_name @ review_prompt_2 @ author_resp @ review_prompt_3"

definition revise_prompt :: "pystr \<Rightarrow> pystr \<Rightarrow> pystr \<Rightarrow> pystr" where
  "revise_prompt initial reviewer_name review_text =
     revise_prompt_1 @ initial @ revise_prompt_2 @ reviewer_name @ revise_prompt_3
       @ review_text @ revise_prompt_4"

definition response_text :: "pystr \<Rightarrow> pystr \<Rightarrow> pystr" where
  "response_text name resp = response_text_1 @ name @ response_text_2 @ resp"

definition consensus_prompt :: "pystr \<Rightarrow> pystr \<Rightarrow> pystr" where
  "consensus_prompt user_input response_texts =
     consensus_prompt_1 @ user_input @ consensus_prompt_2 @ response_texts
       @ consensus_prompt_3"

section \<open>The vendor calls\<close>

text \<open>
  \<open>CALL_FUNCTIONS[ai_id](api_key, prompt)\<close> is a network call: it returns a string or
  \<open>None\<close> (the vendor libraries type the text of a completion as optional), or it raises,
  and \<open>str(e)\<close> is what the script keeps of the exception.  The calls are not functions of
  their arguments, so the model hands every call the log of the calls made before it; the
  log grows with every call, hence any sequence of outcomes is the behaviour of some
  \<open>CALL_FUNCTIONS\<close>.  A log entry records the call and, as a ghost field, the stage of the
  script that made it.

  \<open>AI_CONFIG\<close>, \<open>CALL_FUNCTIONS\<close> and \<open>api_keys\<close> have the same keys (lines 26, 125 and
  152), so a lookup in them never raises \<open>KeyError\<close>: they are total functions on the
  type of agent identities.
\<close>

datatype outcome = Returns "pystr option" | Raises pystr

datatype stage = Initial | Review | Revise | Synthesis

type_synonym 'k call = "stage \<times> 'k \<times> pystr \<times> pystr"

record 'k env =
  CALL_FUNCTIONS :: "'k call list \<Rightarrow> 'k \<Rightarrow> pystr \<Rightarrow> pystr \<Rightarrow> outcome"
  AI_NAME :: "'k \<Rightarrow> pystr"
  api_keys :: "'k \<Rightarrow> pystr"

section \<open>Stage 1: the initial answers (lines 284-296 and 320-332)\<close>

text \<open>What \<open>try: responses[ai_id] = call(...) except Exception as e: responses[ai_id] = f"..."\<close>
  stores, as a function of the outcome of the call.\<close>

fun initial_entry :: "outcome \<Rightarrow> pystr option" where
  "initial_entry (Returns r) = r"
| "initial_entry (Raises e) = Some (error_prefix @ e)"

text \<open>The loop \<open>for ai_id, api_key in available_ais.items()\<close>; the plain-mode loop and the
  deep-mode loop are the same text up to the name of the dict.\<close>

fun initial_answers ::
  "'k env \<Rightarrow> pystr \<Rightarrow> ('k, pystr) dict \<Rightarrow> ('k, pystr option) dict \<Rightarrow> 'k call list
     \<Rightarrow> ('k, pystr option) dict \<times> 'k call list" where
  "initial_answers env user_input [] responses log = (responses, log)"
| "initial_answers env user_input ((ai_id, api_key) # rest) responses log =
     initial_answers env user_input rest
       (AList.update ai_id
          (initial_entry (CALL_FUNCTIONS env log ai_id api_key (initial_prompt user_input)))
          responses)
       (log @ [(Initial, ai_id, api_key, initial_prompt user_input)])"

section \<open>The validity filters (lines 304-307, 338-341 and 416-419)\<close>

text \<open>\<open>v and marker not in v\<close>: \<open>None\<close> and the empty string are falsy.\<close>

fun is_valid :: "pystr \<Rightarrow> pystr option \<Rightarrow> bool" where
  "is_valid marker None = False"
| "is_valid marker (Some v) = (v \<noteq> [] \<and> \<not> py_in marker v)"

text \<open>\<open>{k: v for k, v in responses.items() if v and marker not in v}\<close>.  Every value
  that is kept is a string, which the type of the result records.\<close>

definition valid_entries :: "pystr \<Rightarrow> ('k, pystr option) dict \<Rightarrow> ('k, pystr) dict" where
  "valid_entries marker responses =
     map (\<lambda>(k, v). (k, the v)) (filter (\<lambda>(k, v). is_valid marker v) responses)"

section \<open>Stage 2: cross review (lines 348-369)\<close>

fun review_entry :: "outcome \<Rightarrow> pystr option" where
  "review_entry (Returns review) = review"
| "review_entry (Raises e) = Some (review_error_prefix @ e)"

text \<open>
  The loop \<open>for i, author_id in enumerate(reviewer_ids)\<close>, where \<open>reviewer_ids\<close> is
  \<open>list(valid_initial.keys())\<close>.  The loop variable ranges over the keys of
  \<open>valid_initial\<close> and the body reads \<open>valid_initial[author_id]\<close>, so the model iterates
  over the items of \<open>valid_initial\<close>.  The index \<open>(i + 1) % len(reviewer_ids)\<close> is in range
  whenever the body runs, because then \<open>reviewer_ids\<close> is not empty.
\<close>

fun cross_review ::
  "'k env \<Rightarrow> 'k list \<Rightarrow> (nat \<times> 'k \<times> pystr) list \<Rightarrow> ('k, 'k \<times> pystr option) dict
     \<Rightarrow> 'k call list \<Rightarrow> ('k, 'k \<times> pystr option) dict \<times> 'k call list" where
  "cross_review env reviewer_ids [] reviews log = (reviews, log)"
| "cross_review env reviewer_ids ((i, author_id, author_resp) # rest) reviews log =
     (let reviewer_id = reviewer_ids ! ((i + 1) mod length reviewer_ids) in
      if author_id = reviewer_id then cross_review env reviewer_ids rest reviews log
      else
        let api_key = api_keys env reviewer_id;
            prompt = review_prompt (AI_NAME env author_id) author_resp
        in cross_review env reviewer_ids rest
             (AList.update author_id
                (reviewer_id, review_entry (CALL_FUNCTIONS env log reviewer_id api_key prompt))
                reviews)
             (log @ [(Review, reviewer_id, api_key, prompt)]))"

section \<open>Stage 3: revision (lines 380-410)\<close>

fun revised_entry :: "pystr \<Rightarrow> outcome \<Rightarrow> pystr option" where
  "revised_entry initial (Returns revised) = revised"
| "revised_entry initial (Raises e) = Some initial"

text \<open>
  The loop \<open>for author_id in valid_initial\<close>, again over the items of \<open>valid_initial\<close>.
  \<open>author_id not in reviews\<close> and \<open>reviews[author_id]\<close> are one lookup.  The test
  \<open>"\<dots>" in review_text\<close> of line 387 is outside every \<open>try\<close>: when \<open>review_text\<close> is
  \<open>None\<close> it raises \<open>TypeError\<close>, which ends the script.
\<close>

fun revise_answers ::
  "'k env \<Rightarrow> ('k, 'k \<times> pystr option) dict \<Rightarrow> ('k, pystr) dict \<Rightarrow> ('k, pystr option) dict
     \<Rightarrow> 'k call list \<Rightarrow> (py_error + ('k, pystr option) dict) \<times> 'k call list" where
  "revise_answers env reviews [] revised_responses log = (Inr revised_responses, log)"
| "revise_answers env reviews ((author_id, initial) # rest) revised_responses log =
     (case map_of reviews author_id of
        None \<Rightarrow>
          revise_answers env reviews rest
            (AList.update author_id (Some initial) revised_responses) log
      | Some (reviewer_id, None) \<Rightarrow> (Inl TypeError, log)
      | Some (reviewer_id, Some review_text) \<Rightarrow>
          if py_in cross_mark review_text
          then revise_answers env reviews rest
                 (AList.update author_id (Some initial) revised_responses) log
          else
            let api_key = api_keys env author_id;
                prompt = revise_prompt initial (AI_NAME env reviewer_id) review_text
            in revise_answers env reviews rest
                 (AList.update author_id
                    (revised_entry initial (CALL_FUNCTIONS env log author_id api_key prompt))
                    revised_responses)
                 (log @ [(Revise, author_id, api_key, prompt)]))"

section \<open>The consensus report (lines 426-470)\<close>

text \<open>
  How a run of the script ends: at one of its four \<open>st.stop()\<close>, with an exception that
  nothing catches, with the consensus rendered (\<open>st.markdown(consensus)\<close>), or with the
  error of the synthesis call rendered (\<open>st.error\<close>).
\<close>

datatype stop_reason = NoInput | NoApiKey | TooFewAIs | NoValidResponses

datatype ending =
  Stopped stop_reason | Uncaught py_error | Report "pystr option" | ReportError pystr

definition response_texts :: "'k env \<Rightarrow> ('k, pystr) dict \<Rightarrow> pystr" where
  "response_texts env valid_responses =
     join [0xA, 0xA] (map (\<lambda>(ai_id, resp). response_text (AI_NAME env ai_id) resp) valid_responses)"

text \<open>\<open>len(valid_responses) < 1\<close> is the empty dict; otherwise
  \<open>list(valid_responses.keys())[0]\<close> is the key of the first item.\<close>

definition consensus_report ::
  "'k env \<Rightarrow> pystr \<Rightarrow> ('k, pystr) dict \<Rightarrow> 'k call list \<Rightarrow> ending \<times> 'k call list" where
  "consensus_report env user_input valid_responses log =
     (case valid_responses of
        [] \<Rightarrow> (Stopped NoValidResponses, log)
      | (synthesizer_id, _) # _ \<Rightarrow>
          let prompt = consensus_prompt user_input (response_texts env valid_responses);
              synthesizer_key = api_keys env synthesizer_id
          in (case CALL_FUNCTIONS env log synthesizer_id synthesizer_key prompt of
                Returns consensus \<Rightarrow> Report consensus
              | Raises e \<Rightarrow> ReportError e,
              log @ [(Synthesis, synthesizer_id, synthesizer_key, prompt)]))"

section \<open>The analysis (lines 268-470)\<close>

text \<open>
  Everything before the consensus report: the guards, the initial answers and, in deep
  mode, review and revision.  The result is either the way the script has ended or the
  dict \<open>valid_responses\<close> that line 426 finds, with the log of the calls made.  What
  the script renders on the page between the stages (\<open>st.markdown\<close>, \<open>st.expander\<close>,
  \<open>st.columns\<close>) changes none of its variables and is not part of the model.
\<close>

definition stages ::
  "'k env \<Rightarrow> bool \<Rightarrow> pystr \<Rightarrow> ('k, pystr) dict
     \<Rightarrow> (ending + ('k, pystr) dict) \<times> 'k call list" where
  "stages env is_deep_mode user_input available_ais =
     (if strip user_input = [] then (Inl (Stopped NoInput), [])
      else if available_ais = [] then (Inl (Stopped NoApiKey), [])
      else if \<not> is_deep_mode then
        (case initial_answers env user_input available_ais [] [] of
           (responses, log) \<Rightarrow> (Inr (valid_entries error_marker responses), log))
      else if length available_ais < 2 then (Inl (Stopped TooFewAIs), [])
      else
        (case initial_answers env user_input available_ais [] [] of
           (initial_responses, log) \<Rightarrow>
             let valid_initial = valid_entries error_marker initial_responses in
             if length valid_initial < 2 then (Inr valid_initial, log)
             else
               (case cross_review env (map fst valid_initial) (enumerate 0 valid_initial) [] log of
                  (reviews, log2) \<Rightarrow>
                    (case revise_answers env reviews valid_initial [] log2 of
                       (Inl e, log3) \<Rightarrow> (Inl (Uncaught e), log3)
                     | (Inr revised_responses, log3) \<Rightarrow>
                         (Inr (valid_entries cross_mark revised_responses), log3)))))"

definition analysis ::
  "'k env \<Rightarrow> bool \<Rightarrow> pystr \<Rightarrow> ('k, pystr) dict \<Rightarrow> ending \<times> 'k call list" where
  "analysis env is_deep_mode user_input available_ais =
     (case stages env is_deep_mode user_input available_ais of
        (Inl e, log) \<Rightarrow> (e, log)
      | (Inr valid_responses, log) \<Rightarrow> consensus_report env user_input valid_responses log)"

section \<open>The configured agents (lines 26-55, 151-181)\<close>

datatype ai_id = openai | gemini | perplexity | claude

definition AI_CONFIG :: "ai_id list" where
  "AI_CONFIG = [openai, gemini, perplexity, claude]"

text \<open>\<open>AI_CONFIG[ai_id]['name']\<close>.\<close>

fun AI_CONFIG_name :: "ai_id \<Rightarrow> pystr" where
  "AI_CONFIG_name openai =
     [0x47, 0x50, 0x54, 0x20, 0x28, 0x4F, 0x70, 0x65, 0x6E, 0x41, 0x49, 0x29]"
| "AI_CONFIG_name gemini =
     [0x47, 0x65, 0x6D, 0x69, 0x6E, 0x69, 0x20, 0x28, 0x47, 0x6F, 0x6F, 0x67, 0x6C, 0x65, 0x29]"
| "AI_CONFIG_name perplexity =
     [0x50, 0x65, 0x72, 0x70, 0x6C, 0x65, 0x78, 0x69, 0x74, 0x79]"
| "AI_CONFIG_name claude =
     [0x43, 0x6C, 0x61, 0x75, 0x64, 0x65, 0x20, 0x28, 0x41, 0x6E, 0x74, 0x68, 0x72, 0x6F, 0x70,
      0x69, 0x63, 0x29]"

text \<open>\<open>api_keys\<close> has one entry per key of \<open>AI_CONFIG\<close>, in that order (the text the user
  typed); the dict \<open>available_ais\<close> is
  \<open>{k: v for k, v in api_keys.items() if v and v.strip()}\<close>.\<close>

definition available_ais_dict :: "(ai_id \<Rightarrow> pystr) \<Rightarrow> (ai_id, pystr) dict" where
  "available_ais_dict keys =
     filter (\<lambda>(k, v). v \<noteq> [] \<and> strip v \<noteq> []) (map (\<lambda>k. (k, keys k)) AI_CONFIG)"

text \<open>The script, from the click on the analysis button.\<close>

definition app ::
  "(ai_id call list \<Rightarrow> ai_id \<Rightarrow> pystr \<Rightarrow> pystr \<Rightarrow> outcome) \<Rightarrow> (ai_id \<Rightarrow> pystr) \<Rightarrow> bool \<Rightarrow> pystr
     \<Rightarrow> ending \<times> ai_id call list" where
  "app calls keys is_deep_mode user_input =
     analysis \<lparr>CALL_FUNCTIONS = calls, AI_NAME = AI_CONFIG_name, api_keys = keys\<rparr>
       is_deep_mode user_input (available_ais_dict keys)"

section \<open>Auxiliary definitions for the proofs\<close>

text \<open>The entries that the loop of stage 1 adds to \<open>responses\<close> when it starts with the
  call log \<open>log\<close>, and the log entry of one of its calls.\<close>

fun initial_entries ::
  "'k env \<Rightarrow> pystr \<Rightarrow> ('k, pystr) dict \<Rightarrow> 'k call list \<Rightarrow> ('k, pystr option) dict" where
  "initial_entries env user_input [] log = []"
| "initial_entries env user_input ((ai_id, api_key) # rest) log =
     (ai_id, initial_entry (CALL_FUNCTIONS env log ai_id api_key (initial_prompt user_input)))
       # initial_entries env user_input rest
           (log @ [(Initial, ai_id, api_key, initial_prompt user_input)])"

definition initial_call :: "pystr \<Rightarrow> 'k \<times> pystr \<Rightarrow> 'k call" where
  "initial_call user_input = (\<lambda>(ai_id, api_key). (Initial, ai_id, api_key, initial_prompt user_input))"

text \<open>The reviewer that line 351 picks for the author at index \<open>i\<close>, the log entry of a
  review call, and the entries that the loop of stage 2 adds to \<open>reviews\<close>.\<close>

definition reviewer_of :: "'k list \<Rightarrow> nat \<Rightarrow> 'k" where
  "reviewer_of reviewer_ids i = reviewer_ids ! ((i + 1) mod length reviewer_ids)"

definition review_call :: "'k env \<Rightarrow> 'k list \<Rightarrow> nat \<times> 'k \<times> pystr \<Rightarrow> 'k call" where
  "review_call env reviewer_ids =
     (\<lambda>(i, author_id, author_resp).
        (Review, reviewer_of reviewer_ids i, api_keys env (reviewer_of reviewer_ids i),
         review_prompt (AI_NAME env author_id) author_resp))"

fun review_entries ::
  "'k env \<Rightarrow> 'k list \<Rightarrow> (nat \<times> 'k \<times> pystr) list \<Rightarrow> 'k call list
     \<Rightarrow> ('k, 'k \<times> pystr option) dict" where
  "review_entries env reviewer_ids [] log = []"
| "review_entries env reviewer_ids ((i, author_id, author_resp) # rest) log =
     (author_id,
      reviewer_of reviewer_ids i,
      review_entry (CALL_FUNCTIONS env log (reviewer_of reviewer_ids i)
        (api_keys env (reviewer_of reviewer_ids i))
        (review_prompt (AI_NAME env author_id) author_resp)))
       # review_entries env reviewer_ids rest
           (log @ [review_call env reviewer_ids (i, author_id, author_resp)])"

text \<open>
  Stage 3, one author at a time.  \<open>review_is_none\<close> holds when the review stored for the
  author is \<open>None\<close>, the case in which line 387 raises.  In every other case \<open>revise_one\<close>
  gives the entry that the loop body stores for the author and the calls that it makes
  (none or one); \<open>revise_entries\<close> and \<open>revise_calls\<close> collect them over the loop.
\<close>

fun review_is_none :: "('k, 'k \<times> pystr option) dict \<Rightarrow> 'k \<Rightarrow> bool" where
  "review_is_none reviews author_id =
     (case map_of reviews author_id of Some (reviewer_id, None) \<Rightarrow> True | _ \<Rightarrow> False)"

fun revise_one ::
  "'k env \<Rightarrow> ('k, 'k \<times> pystr option) dict \<Rightarrow> 'k \<times> pystr \<Rightarrow> 'k call list
     \<Rightarrow> pystr option \<times> 'k call list" where
  "revise_one env reviews (author_id, initial) log =
     (case map_of reviews author_id of
        None \<Rightarrow> (Some initial, [])
      | Some (reviewer_id, None) \<Rightarrow> (Some initial, [])
      | Some (reviewer_id, Some review_text) \<Rightarrow>
          if py_in cross_mark review_text then (Some initial, [])
          else
            (revised_entry initial
               (CALL_FUNCTIONS env log author_id (api_keys env author_id)
                  (revise_prompt initial (AI_NAME env reviewer_id) review_text)),
             [(Revise, author_id, api_keys env author_id,
               revise_prompt initial (AI_NAME env reviewer_id) review_text)]))"

fun revise_entries ::
  "'k env \<Rightarrow> ('k, 'k \<times> pystr option) dict \<Rightarrow> ('k, pystr) dict \<Rightarrow> 'k call list
     \<Rightarrow> ('k, pystr option) dict" where
  "revise_entries env reviews [] log = []"
| "revise_entries env reviews (x # rest) log =
     (fst x, fst (revise_one env reviews x log))
       # revise_entries env reviews rest (log @ snd (revise_one env reviews x log))"

fun revise_calls ::
  "'k env \<Rightarrow> ('k, 'k \<times> pystr option) dict \<Rightarrow> ('k, pystr) dict \<Rightarrow> 'k call list
     \<Rightarrow> 'k call list" where
  "revise_calls env reviews [] log = []"
| "revise_calls env reviews (x # rest) log =
     snd (revise_one env reviews x log)
       @ revise_calls env reviews rest (log @ snd (revise_one env reviews x log))"

text \<open>\<open>xs\<close> lists, in the order of \<open>ys\<close>, the elements of \<open>ys\<close> that it contains.\<close>

definition keeps_order :: "'a list \<Rightarrow> 'a list \<Rightarrow> bool" where
  "keeps_order xs ys = (xs = filter (\<lambda>k. k \<in> set xs) ys)"

section \<open>Scenarios\<close>

text \<open>
  Concrete runs of the script, used to evaluate the model.  The user has typed a key for
  \<open>openai\<close> and for \<open>gemini\<close>, nothing for \<open>perplexity\<close> and a blank for \<open>claude\<close>.
  A scenario fixes what the vendor calls do.
\<close>

fun two_keys :: "ai_id \<Rightarrow> pystr" where
  "two_keys openai = [0x6B, 0x31]"
| "two_keys gemini = [0x6B, 0x32]"
| "two_keys perplexity = []"
| "two_keys claude = [0x20]"

fun fail_and_ok :: "ai_id call list \<Rightarrow> ai_id \<Rightarrow> pystr \<Rightarrow> pystr \<Rightarrow> outcome" where
  "fail_and_ok log ai_id api_key prompt =
     (if ai_id = openai then Raises [0x34, 0x30, 0x31] else Returns (Some [0x6F, 0x6B]))"

fun fail_and_empty :: "ai_id call list \<Rightarrow> ai_id \<Rightarrow> pystr \<Rightarrow> pystr \<Rightarrow> outcome" where
  "fail_and_empty log ai_id api_key prompt =
     (if ai_id = openai then Raises [0x34, 0x30, 0x31] else Returns (Some []))"

definition script_env ::
  "(ai_id call list \<Rightarrow> ai_id \<Rightarrow> pystr \<Rightarrow> pystr \<Rightarrow> outcome) \<Rightarrow> (ai_id \<Rightarrow> pystr) \<Rightarrow> ai_id env" where
  "script_env calls keys = \<lparr>CALL_FUNCTIONS = calls, AI_NAME = AI_CONFIG_name, api_keys = keys\<rparr>"

text \<open>Agents numbered from 0 that all hold the same valid answer; every call succeeds.\<close>

fun always_ok :: "'k call list \<Rightarrow> 'k \<Rightarrow> pystr \<Rightarrow> pystr \<Rightarrow> outcome" where
  "always_ok log ai_id api_key prompt = Returns (Some [0x6F, 0x6B])"

definition numbered_env :: "nat env" where
  "numbered_env = \<lparr>CALL_FUNCTIONS = always_ok, AI_NAME = (\<lambda>k. [0x41]), api_keys = (\<lambda>k. [0x6B])\<rparr>"

definition answers :: "nat \<Rightarrow> (nat, pystr) dict" where
  "answers n = map (\<lambda>k. (k, [0x61])) [0 ..< n]"

text \<open>Every call raises; and a configuration with a single key.\<close>

fun always_fails :: "'k call list \<Rightarrow> 'k \<Rightarrow> pystr \<Rightarrow> pystr \<Rightarrow> outcome" where
  "always_fails log ai_id api_key prompt = Raises [0x34, 0x30, 0x31]"

fun one_key :: "ai_id \<Rightarrow> pystr" where
  "one_key openai = [0x6B, 0x31]"
| "one_key gemini = []"
| "one_key perplexity = []"
| "one_key claude = []"

text \<open>
  Two scenarios for deep mode.  In the first, both initial calls return a text and every
  later call returns \<open>None\<close>.  In the second, the initial answer of \<open>openai\<close> contains the
  code point U+274C (but not the error marker), both review calls raise, and every later
  call returns a text.
\<close>

fun review_returns_none :: "ai_id call list \<Rightarrow> ai_id \<Rightarrow> pystr \<Rightarrow> pystr \<Rightarrow> outcome" where
  "review_returns_none log ai_id api_key prompt =
     (if length log < 2 then Returns (Some [0x61]) else Returns None)"

fun cross_in_answer :: "ai_id call list \<Rightarrow> ai_id \<Rightarrow> pystr \<Rightarrow> pystr \<Rightarrow> outcome" where
  "cross_in_answer log ai_id api_key prompt =
     (if length log < 2
      then (if ai_id = openai then Returns (Some [0x274C, 0x20, 0x78])
            else Returns (Some [0x6F, 0x6B]))
      else if length log < 4 then Raises [0x34, 0x30, 0x31]
      else Returns (Some [0x6F, 0x6B]))"

text \<open>
  Three more scenarios for deep mode.  In the first, the initial call of \<open>openai\<close> raises,
  that of \<open>gemini\<close> returns a text, and every later call raises.  In the other two, both
  initial calls and both review calls return a text; the revision call of \<open>openai\<close> then
  raises in the one and returns \<open>None\<close> in the other.
\<close>

fun synthesis_fails :: "ai_id call list \<Rightarrow> ai_id \<Rightarrow> pystr \<Rightarrow> pystr \<Rightarrow> outcome" where
  "synthesis_fails log ai_id api_key prompt =
     (if length log < 2
      then (if ai_id = openai then Raises [0x34, 0x30, 0x31] else Returns (Some [0x6F, 0x6B]))
      else Raises [0x35, 0x30, 0x30])"

fun revision_raises :: "ai_id call list \<Rightarrow> ai_id \<Rightarrow> pystr \<Rightarrow> pystr \<Rightarrow> outcome" where
  "revision_raises log ai_id api_key prompt =
     (if length log < 2 then Returns (Some (if ai_id = openai then [0x61] else [0x62]))
      else if length log < 4 then Returns (Some [0x63])
      else if ai_id = openai then Raises [0x35, 0x30, 0x30]
      else Returns (Some [0x62]))"

fun revision_returns_none :: "ai_id call list \<Rightarrow> ai_id \<Rightarrow> pystr \<Rightarrow> pystr \<Rightarrow> outcome" where
  "revision_returns_none log ai_id api_key prompt =
     (if length log < 2 then Returns (Some (if ai_id = openai then [0x61] else [0x62]))
      else if length log < 4 then Returns (Some [0x63])
      else if ai_id = openai then Returns None
      else Returns (Some [0x62]))"

section \<open>Facts about the Python values\<close>

lemma update_fresh: "k \<notin> fst ` set d \<Longrightarrow> AList.update k v d = d @ [(k, v)]"
  by (induction d) auto

lemma py_in_prefix: "py_in sub (sub @ post)"
proof (cases "sub @ post")
  case Nil
  then show ?thesis by simp
next
  case (Cons c cs)
  have "take (length sub) (sub @ post) = sub" by simp
  then show ?thesis by (simp add: Cons)
qed

lemma py_in_append: "py_in sub (pre @ sub @ post)"
  by (induction pre) (auto simp: py_in_prefix)

lemma error_prefix_marker: "py_in error_marker (error_prefix @ e)"
proof -
  have "error_prefix @ e = [] @ error_marker @ ([0x3A, 0x20] @ e)"
    by (simp add: error_prefix_def error_marker_def)
  then show ?thesis by (simp only: py_in_append)
qed

lemma review_error_cross: "py_in cross_mark (review_error_prefix @ e)"
  by (simp add: review_error_prefix_def cross_mark_def)

lemma initial_answers_eq:
  "distinct (map fst ais) \<Longrightarrow> fst ` set rs \<inter> fst ` set ais = {} \<Longrightarrow>
   initial_answers env ui ais rs log =
     (rs @ initial_entries env ui ais log, log @ map (initial_call ui) ais)"
proof (induction ais arbitrary: rs log)
  case Nil
  then show ?case by simp
next
  case (Cons a ais)
  obtain k key where a: "a = (k, key)" by (cases a)
  from Cons.prems have fresh: "k \<notin> fst ` set rs" by (auto simp: a)
  from Cons.prems have d: "distinct (map fst ais)" by simp
  from Cons.prems have "fst ` set (rs @ [(k, v)]) \<inter> fst ` set ais = {}" for v
    by (auto simp: a)
  from Cons.IH [OF d this] show ?case
    by (simp add: a update_fresh [OF fresh] initial_call_def)
qed

lemma initial_entries_keys: "map fst (initial_entries env ui ais log) = map fst ais"
  by (induction ais arbitrary: log) auto

lemma initial_entries_nth:
  "i < length ais \<Longrightarrow>
   initial_entries env ui ais log ! i =
     (fst (ais ! i),
      initial_entry (CALL_FUNCTIONS env (log @ map (initial_call ui) (take i ais))
        (fst (ais ! i)) (snd (ais ! i)) (initial_prompt ui)))"
proof (induction ais arbitrary: log i)
  case Nil
  then show ?case by simp
next
  case (Cons a ais)
  obtain k key where a: "a = (k, key)" by (cases a)
  show ?case
  proof (cases i)
    case 0
    then show ?thesis by (simp add: a)
  next
    case (Suc j)
    with Cons.prems have "j < length ais" by simp
    from Cons.IH [OF this] show ?thesis by (simp add: a Suc initial_call_def)
  qed
qed

lemma valid_entries_keys:
  "map fst (valid_entries marker d) = map fst (filter (\<lambda>(k, v). is_valid marker v) d)"
  by (induction d) (auto simp: valid_entries_def)

lemma valid_entries_mem:
  "distinct (map fst d) \<Longrightarrow> (k, v) \<in> set d \<Longrightarrow>
   (k \<in> fst ` set (valid_entries marker d)) = is_valid marker v"
proof -
  assume d: "distinct (map fst d)" and m: "(k, v) \<in> set d"
  have "fst ` set (valid_entries marker d) = set (map fst (valid_entries marker d))" by simp
  also have "\<dots> = fst ` {p \<in> set d. is_valid marker (snd p)}"
    by (auto simp: valid_entries_keys split_def)
  finally have "(k \<in> fst ` set (valid_entries marker d)) = (\<exists>v'. (k, v') \<in> set d \<and> is_valid marker v')"
    by force
  moreover have "v' = v" if "(k, v') \<in> set d" for v'
    using eq_key_imp_eq_value [OF d m that] by simp
  ultimately show ?thesis using m by blast
qed

lemma valid_entries_value:
  "(k, t) \<in> set (valid_entries marker d) \<Longrightarrow> (k, Some t) \<in> set d \<and> t \<noteq> [] \<and> \<not> py_in marker t"
  by (induction d) (auto simp: valid_entries_def split: if_splits option.splits elim: is_valid.elims)

section \<open>Facts about stage 1\<close>

lemma available_two_keys: "available_ais_dict two_keys = [(openai, [0x6B, 0x31]), (gemini, [0x6B, 0x32])]"
  by (simp add: available_ais_dict_def AI_CONFIG_def strip_def isspace_def)

lemma initial_answers_log:
  "snd (initial_answers env ui ais rs log) = log @ map (initial_call ui) ais"
  by (induction ais arbitrary: rs log) (auto simp: initial_call_def)

section \<open>Facts about stage 2\<close>

lemma cross_review_eq:
  "distinct (map (fst \<circ> snd) items) \<Longrightarrow>
   fst ` set reviews \<inter> (fst \<circ> snd) ` set items = {} \<Longrightarrow>
   \<forall>(i, author_id, author_resp) \<in> set items. author_id \<noteq> reviewer_of reviewer_ids i \<Longrightarrow>
   cross_review env reviewer_ids items reviews log =
     (reviews @ review_entries env reviewer_ids items log,
      log @ map (review_call env reviewer_ids) items)"
proof (induction items arbitrary: reviews log)
  case Nil
  then show ?case by simp
next
  case (Cons x items)
  obtain i a r where x: "x = (i, a, r)" by (cases x)
  from Cons.prems have fresh: "a \<notin> fst ` set reviews" by (auto simp: x)
  from Cons.prems have ne: "a \<noteq> reviewer_of reviewer_ids i" by (simp add: x)
  from Cons.prems have d: "distinct (map (fst \<circ> snd) items)" by (simp add: comp_def)
  have disj: "fst ` set (reviews @ [(a, v)]) \<inter> (fst \<circ> snd) ` set items = {}" for v
    using Cons.prems by (auto simp: x)
  have rest: "\<forall>(i, author_id, author_resp) \<in> set items. author_id \<noteq> reviewer_of reviewer_ids i"
    using Cons.prems by simp
  have IH: "cross_review env reviewer_ids items (reviews @ [(a, v)]) log' =
     ((reviews @ [(a, v)]) @ review_entries env reviewer_ids items log',
      log' @ map (review_call env reviewer_ids) items)" for v log'
    by (rule Cons.IH [OF d disj rest])
  show ?case
    using ne by (simp add: x Let_def update_fresh [OF fresh] IH review_call_def reviewer_of_def)
qed

lemma review_entries_keys:
  "map fst (review_entries env reviewer_ids items log) = map (fst \<circ> snd) items"
  by (induction items arbitrary: log) auto

lemma review_entries_reviewers:
  "map (fst \<circ> snd) (review_entries env reviewer_ids items log) =
     map (\<lambda>x. reviewer_of reviewer_ids (fst x)) items"
  by (induction items arbitrary: log) auto

lemma enumerate_keys: "map (fst \<circ> snd) (enumerate n xs) = map fst xs"
  by (induction xs arbitrary: n) auto

lemma enumerate_index: "map fst (enumerate n xs) = [n ..< n + length xs]"
  by (simp add: enumerate_eq_zip)

lemma next_differs:
  assumes "distinct ids" "2 \<le> length ids" "i < length ids"
  shows "ids ! i \<noteq> reviewer_of ids i"
proof -
  have "0 < length ids" using assms by linarith
  then have "(i + 1) mod length ids < length ids" by simp
  moreover have "(i + 1) mod length ids \<noteq> i"
  proof (cases "i + 1 < length ids")
    case True
    then show ?thesis by simp
  next
    case False
    with assms have "i + 1 = length ids" by simp
    then have "(i + 1) mod length ids = 0" by simp
    moreover from \<open>i + 1 = length ids\<close> assms have "i \<noteq> 0" by simp
    ultimately show ?thesis by simp
  qed
  ultimately show ?thesis
    using assms by (simp add: reviewer_of_def nth_eq_iff_index_eq)
qed

lemma enumerate_authors_differ:
  assumes "distinct (map fst valid_initial)" "2 \<le> length valid_initial"
  shows "\<forall>(i, author_id, author_resp) \<in> set (enumerate 0 valid_initial).
           author_id \<noteq> reviewer_of (map fst valid_initial) i"
proof -
  have "a \<noteq> reviewer_of (map fst valid_initial) i"
    if "(i, a, r) \<in> set (enumerate 0 valid_initial)" for i a r
  proof -
    from that have i: "i < length valid_initial" and "valid_initial ! i = (a, r)"
      by (auto simp: in_set_enumerate_eq)
    then have "map fst valid_initial ! i = a" by simp
    with next_differs [OF assms(1), of i] assms(2) i show ?thesis by auto
  qed
  then show ?thesis by auto
qed

lemma cross_review_stage:
  assumes "distinct (map fst valid_initial)" "2 \<le> length valid_initial"
  shows "cross_review env (map fst valid_initial) (enumerate 0 valid_initial) [] log =
     (review_entries env (map fst valid_initial) (enumerate 0 valid_initial) log,
      log @ map (review_call env (map fst valid_initial)) (enumerate 0 valid_initial))"
  using cross_review_eq [of "enumerate 0 valid_initial" "[]" "map fst valid_initial" env log]
    enumerate_authors_differ [OF assms] assms(1)
  by (simp add: enumerate_keys)

lemma cross_review_calls:
  "\<exists>calls. snd (cross_review env ids items reviews log) = log @ calls \<and>
           (\<forall>c \<in> set calls. fst c = Review)"
proof (induction items arbitrary: reviews log)
  case Nil
  then show ?case by simp
next
  case (Cons x items)
  obtain i a r where x: "x = (i, a, r)" by (cases x)
  show ?case
  proof (cases "a = ids ! ((i + 1) mod length ids)")
    case True
    then show ?thesis using Cons.IH [of reviews log] by (simp add: x)
  next
    case False
    let ?rid = "ids ! ((i + 1) mod length ids)"
    let ?c = "(Review, ?rid, api_keys env ?rid, review_prompt (AI_NAME env a) r)"
    let ?v = "(?rid, review_entry (CALL_FUNCTIONS env log ?rid (api_keys env ?rid)
                 (review_prompt (AI_NAME env a) r)))"
    from Cons.IH [of "AList.update a ?v reviews" "log @ [?c]"]
    obtain calls where c: "snd (cross_review env ids items (AList.update a ?v reviews) (log @ [?c]))
        = (log @ [?c]) @ calls" "\<forall>c \<in> set calls. fst c = Review"
      by blast
    have "snd (cross_review env ids (x # items) reviews log) = log @ (?c # calls)"
      using False c(1) by (simp add: x Let_def)
    moreover have "\<forall>c \<in> set (?c # calls). fst c = Review" using c(2) by simp
    ultimately show ?thesis by blast
  qed
qed

lemma revise_answers_calls:
  "\<exists>calls. snd (revise_answers env reviews vi revised log) = log @ calls \<and>
           (\<forall>c \<in> set calls. fst c = Revise \<and> fst (snd c) \<in> fst ` set vi)"
proof (induction vi arbitrary: revised log)
  case Nil
  then show ?case by simp
next
  case (Cons x vi)
  obtain a initial where x: "x = (a, initial)" by (cases x)
  have carry: ?case
    if "revise_answers env reviews (x # vi) revised log =
          revise_answers env reviews vi (AList.update a (Some initial) revised) log"
  proof -
    from Cons.IH [of "AList.update a (Some initial) revised" log]
    obtain calls where "snd (revise_answers env reviews vi (AList.update a (Some initial) revised) log)
        = log @ calls" "\<forall>c \<in> set calls. fst c = Revise \<and> fst (snd c) \<in> fst ` set vi"
      by blast
    then have "snd (revise_answers env reviews (x # vi) revised log) = log @ calls \<and>
        (\<forall>c \<in> set calls. fst c = Revise \<and> fst (snd c) \<in> fst ` set (x # vi))"
      using that by auto
    then show ?thesis by blast
  qed
  show ?case
  proof (cases "map_of reviews a")
    case None
    then show ?thesis by (intro carry) (simp add: x)
  next
    case (Some p)
    obtain rid t where p: "p = (rid, t)" by (cases p)
    show ?thesis
    proof (cases t)
      case None
      then have "snd (revise_answers env reviews (x # vi) revised log) = log @ []"
        by (simp add: x Some p)
      then show ?thesis by fastforce
    next
      case (Some rt)
      note t = this
      show ?thesis
      proof (cases "py_in cross_mark rt")
        case True
        then show ?thesis by (intro carry) (simp add: x \<open>map_of reviews a = Some p\<close> p t)
      next
        case False
        let ?c = "(Revise, a, api_keys env a, revise_prompt initial (AI_NAME env rid) rt)"
        let ?v = "revised_entry initial (CALL_FUNCTIONS env log a (api_keys env a)
                    (revise_prompt initial (AI_NAME env rid) rt))"
        from Cons.IH [of "AList.update a ?v revised" "log @ [?c]"]
        obtain calls where c:
          "snd (revise_answers env reviews vi (AList.update a ?v revised) (log @ [?c]))
             = (log @ [?c]) @ calls"
          "\<forall>c \<in> set calls. fst c = Revise \<and> fst (snd c) \<in> fst ` set vi"
          by blast
        have "snd (revise_answers env reviews (x # vi) revised log) = log @ (?c # calls)"
          using False c(1) by (simp add: x \<open>map_of reviews a = Some p\<close> p t Let_def)
        moreover have "\<forall>c \<in> set (?c # calls). fst c = Revise \<and> fst (snd c) \<in> fst ` set (x # vi)"
          using c(2) by (auto simp: x)
        ultimately show ?thesis by blast
      qed
    qed
  qed
qed

section \<open>Facts about stage 3\<close>

lemma revise_answers_step:
  "\<not> review_is_none reviews a \<Longrightarrow>
   revise_answers env reviews ((a, initial) # rest) revised log =
     revise_answers env reviews rest
       (AList.update a (fst (revise_one env reviews (a, initial) log)) revised)
       (log @ snd (revise_one env reviews (a, initial) log))"
  by (auto simp: Let_def split: option.splits prod.splits)

lemma revise_answers_eq:
  "\<forall>x \<in> set vi. \<not> review_is_none reviews (fst x) \<Longrightarrow> distinct (map fst vi) \<Longrightarrow>
   fst ` set revised \<inter> fst ` set vi = {} \<Longrightarrow>
   revise_answers env reviews vi revised log =
     (Inr (revised @ revise_entries env reviews vi log), log @ revise_calls env reviews vi log)"
proof (induction vi arbitrary: revised log)
  case Nil
  then show ?case by simp
next
  case (Cons x vi)
  obtain a initial where x: "x = (a, initial)" by (cases x)
  from Cons.prems have ok: "\<not> review_is_none reviews a" by (simp add: x)
  from Cons.prems have fresh: "a \<notin> fst ` set revised" by (auto simp: x)
  have rest: "\<forall>x \<in> set vi. \<not> review_is_none reviews (fst x)" using Cons.prems by simp
  have d: "distinct (map fst vi)" using Cons.prems by simp
  have disj: "fst ` set (revised @ [(a, v)]) \<inter> fst ` set vi = {}" for v
    using Cons.prems by (auto simp: x)
  have IH: "revise_answers env reviews vi (revised @ [(a, v)]) log' =
     (Inr ((revised @ [(a, v)]) @ revise_entries env reviews vi log'),
      log' @ revise_calls env reviews vi log')" for v log'
    by (rule Cons.IH [OF rest d disj])
  show ?case
    unfolding x revise_answers_step [OF ok] update_fresh [OF fresh] IH
    by simp
qed

lemma revise_answers_crash:
  "x \<in> set vi \<Longrightarrow> review_is_none reviews (fst x) \<Longrightarrow>
   fst (revise_answers env reviews vi revised log) = Inl TypeError"
proof (induction vi arbitrary: revised log)
  case Nil
  then show ?case by simp
next
  case (Cons y vi)
  obtain a initial where y: "y = (a, initial)" by (cases y)
  show ?case
  proof (cases "review_is_none reviews a")
    case True
    then show ?thesis by (auto simp: y split: option.splits prod.splits)
  next
    case False
    with Cons.prems have "x \<in> set vi" by (auto simp: y)
    from Cons.IH [OF this Cons.prems(2)] show ?thesis
      unfolding y revise_answers_step [OF False] .
  qed
qed

lemma revise_entries_keys: "map fst (revise_entries env reviews vi log) = map fst vi"
  by (induction vi arbitrary: log) auto

lemma revise_entries_mem:
  "x \<in> set vi \<Longrightarrow>
   \<exists>h. (fst x, fst (revise_one env reviews x h)) \<in> set (revise_entries env reviews vi log)"
proof (induction vi arbitrary: log)
  case Nil
  then show ?case by simp
next
  case (Cons y vi)
  show ?case
  proof (cases "x = y")
    case True
    then show ?thesis by auto
  next
    case False
    with Cons.prems have "x \<in> set vi" by simp
    from Cons.IH [OF this, of "log @ snd (revise_one env reviews y log)"]
    show ?thesis by auto
  qed
qed

lemma revise_calls_authors:
  "c \<in> set (revise_calls env reviews vi log) \<Longrightarrow>
   \<exists>x \<in> set vi. \<exists>h. snd (revise_one env reviews x h) = [c]"
proof (induction vi arbitrary: log)
  case Nil
  then show ?case by simp
next
  case (Cons y vi)
  obtain a initial where y: "y = (a, initial)" by (cases y)
  from Cons.prems consider "c \<in> set (snd (revise_one env reviews y log))"
    | "c \<in> set (revise_calls env reviews vi (log @ snd (revise_one env reviews y log)))"
    by auto
  then show ?case
  proof cases
    case 1
    then have "snd (revise_one env reviews y log) = [c]"
      by (auto simp: y split: option.splits prod.splits if_splits)
    then show ?thesis by auto
  next
    case 2
    from Cons.IH [OF this] show ?thesis by auto
  qed
qed

section \<open>Facts about the order of the keys\<close>

lemma filter_keys:
  "distinct (map fst d) \<Longrightarrow>
   map fst (filter P d) = filter (\<lambda>k. k \<in> fst ` set (filter P d)) (map fst d)"
proof (induction d)
  case Nil
  then show ?case by simp
next
  case (Cons x d)
  have notin: "fst x \<notin> fst ` set d" using Cons.prems by simp
  have IH: "map fst (filter P d) = filter (\<lambda>k. k \<in> fst ` set (filter P d)) (map fst d)"
    using Cons by simp
  show ?case
  proof (cases "P x")
    case True
    have "(k \<in> fst ` set (filter P (x # d))) = (k \<in> fst ` set (filter P d))"
      if "k \<in> set (map fst d)" for k
    proof -
      from that have "k \<in> fst ` set d" by (simp only: set_map)
      with notin have "k \<noteq> fst x" by blast
      then show ?thesis by auto
    qed
    then have "filter (\<lambda>k. k \<in> fst ` set (filter P (x # d))) (map fst d) =
          filter (\<lambda>k. k \<in> fst ` set (filter P d)) (map fst d)"
      by (intro filter_cong) simp_all
    moreover have "fst x \<in> fst ` set (filter P (x # d))" using True by simp
    ultimately have "filter (\<lambda>k. k \<in> fst ` set (filter P (x # d))) (map fst (x # d)) =
        fst x # filter (\<lambda>k. k \<in> fst ` set (filter P d)) (map fst d)"
      by (simp del: set_filter filter.simps add: filter.simps(2) [of _ "fst x" "map fst d"])
    moreover have "map fst (filter P (x # d)) = fst x # map fst (filter P d)"
      using True by simp
    ultimately show ?thesis using IH by simp
  next
    case False
    have "fst x \<notin> fst ` set (filter P d)" using notin by auto
    moreover have "filter P (x # d) = filter P d" using False by simp
    ultimately show ?thesis using IH by (simp del: set_filter)
  qed
qed

lemma keeps_order_refl: "keeps_order xs xs"
  by (simp add: keeps_order_def)

lemma keeps_order_trans:
  assumes "keeps_order xs ys" "keeps_order ys zs"
  shows "keeps_order xs zs"
proof -
  have sub: "set xs \<subseteq> set ys"
    using assms(1) unfolding keeps_order_def by (metis filter_is_subset)
  have "xs = filter (\<lambda>k. k \<in> set xs) (filter (\<lambda>k. k \<in> set ys) zs)"
    using assms unfolding keeps_order_def by simp
  also have "\<dots> = filter (\<lambda>k. k \<in> set xs) zs"
  proof -
    have "(k \<in> set ys \<and> k \<in> set xs) = (k \<in> set xs)" for k using sub by auto
    then show ?thesis by (simp only: filter_filter)
  qed
  finally show ?thesis by (simp add: keeps_order_def)
qed

lemma valid_entries_order:
  "distinct (map fst d) \<Longrightarrow> keeps_order (map fst (valid_entries marker d)) (map fst d)"
  unfolding keeps_order_def valid_entries_keys set_map by (rule filter_keys)

lemma valid_entries_distinct:
  "distinct (map fst d) \<Longrightarrow> distinct (map fst (valid_entries marker d))"
  by (simp add: valid_entries_keys distinct_map_filter)

lemma first_of_filter: "filter P ys = s # rest \<Longrightarrow> find P ys = Some s"
  by (induction ys) (auto split: if_splits)

lemma keeps_order_first:
  assumes "keeps_order (s # rest) ys"
  shows "find (\<lambda>k. k \<in> set (s # rest)) ys = Some s"
proof -
  have "filter (\<lambda>k. k \<in> set (s # rest)) ys = s # rest"
    using assms unfolding keeps_order_def by (rule sym)
  then show ?thesis by (rule first_of_filter)
qed

section \<open>Facts about the stages together\<close>

lemma initial_answers_result:
  "distinct (map fst ais) \<Longrightarrow>
   initial_answers env ui ais [] [] =
     (initial_entries env ui ais [], map (initial_call ui) ais)"
  using initial_answers_eq [of ais "[]" env ui "[]"] by simp

lemma initial_calls_stage: "\<forall>c \<in> set (map (initial_call ui) ais). fst c = Initial"
  by (auto simp: initial_call_def)

lemma stages_calls:
  "\<forall>c \<in> set (snd (stages env is_deep_mode ui ais)). fst c \<noteq> Synthesis"
proof -
  obtain rs log where ia: "initial_answers env ui ais [] [] = (rs, log)"
    by (cases "initial_answers env ui ais [] []")
  have l1: "\<forall>c \<in> set log. fst c = Initial"
    using initial_answers_log [of env ui ais "[]" "[]"] ia initial_calls_stage [of ui ais]
    by simp
  let ?vi = "valid_entries error_marker rs"
  obtain rv log2 where cr: "cross_review env (map fst ?vi) (enumerate 0 ?vi) [] log = (rv, log2)"
    by (cases "cross_review env (map fst ?vi) (enumerate 0 ?vi) [] log")
  have l2: "\<forall>c \<in> set log2. fst c = Initial \<or> fst c = Review"
  proof -
    from cross_review_calls [of env "map fst ?vi" "enumerate 0 ?vi" "[]" log] cr
    obtain calls where "log2 = log @ calls" "\<forall>c \<in> set calls. fst c = Review" by auto
    with l1 show ?thesis by (simp add: ball_Un)
  qed
  obtain res log3 where ra: "revise_answers env rv ?vi [] log2 = (res, log3)"
    by (cases "revise_answers env rv ?vi [] log2")
  have l3: "\<forall>c \<in> set log3. fst c = Initial \<or> fst c = Review \<or> fst c = Revise"
  proof -
    from revise_answers_calls [of env rv ?vi "[]" log2] ra
    obtain calls where "log3 = log2 @ calls" "\<forall>c \<in> set calls. fst c = Revise" by auto
    with l2 show ?thesis by (simp add: ball_Un) blast
  qed
  have n1: "\<forall>c \<in> set log. fst c \<noteq> Synthesis" using l1 by fastforce
  have n3: "\<forall>c \<in> set log3. fst c \<noteq> Synthesis" using l3 by fastforce
  show ?thesis
    using n1 n3 by (cases res) (simp_all add: stages_def ia cr ra Let_def)
qed

lemma stages_keys:
  assumes d: "distinct (map fst ais)"
    and st: "stages env is_deep_mode ui ais = (Inr valid_responses, log)"
  shows "keeps_order (map fst valid_responses) (map fst ais)"
proof -
  let ?rs = "initial_entries env ui ais []"
  let ?log = "map (initial_call ui) ais"
  let ?vi = "valid_entries error_marker ?rs"
  have ia: "initial_answers env ui ais [] [] = (?rs, ?log)"
    by (rule initial_answers_result [OF d])
  have keys: "map fst ?rs = map fst ais" by (rule initial_entries_keys)
  have drs: "distinct (map fst ?rs)" using d keys by simp
  have o1: "keeps_order (map fst ?vi) (map fst ais)"
    using valid_entries_order [OF drs, of error_marker] keys by simp
  have dvi: "distinct (map fst ?vi)" by (rule valid_entries_distinct [OF drs])
  obtain rv log2 where cr: "cross_review env (map fst ?vi) (enumerate 0 ?vi) [] ?log = (rv, log2)"
    by (cases "cross_review env (map fst ?vi) (enumerate 0 ?vi) [] ?log")
  obtain res log3 where ra: "revise_answers env rv ?vi [] log2 = (res, log3)"
    by (cases "revise_answers env rv ?vi [] log2")
  have full: "keeps_order (map fst (valid_entries cross_mark revised)) (map fst ais)"
    if res: "res = Inr revised" for revised
  proof -
    have ok: "\<forall>x \<in> set ?vi. \<not> review_is_none rv (fst x)"
    proof
      fix x assume x: "x \<in> set ?vi"
      show "\<not> review_is_none rv (fst x)"
      proof
        assume "review_is_none rv (fst x)"
        from revise_answers_crash [OF x this, of env "[]" log2] ra res show False by simp
      qed
    qed
    have "revise_answers env rv ?vi [] log2 =
        (Inr ([] @ revise_entries env rv ?vi log2), log2 @ revise_calls env rv ?vi log2)"
      by (rule revise_answers_eq [OF ok dvi]) simp
    with ra res have revised: "revised = revise_entries env rv ?vi log2" by simp
    have k2: "map fst revised = map fst ?vi" unfolding revised by (rule revise_entries_keys)
    have "distinct (map fst revised)" using dvi k2 by simp
    from valid_entries_order [OF this, of cross_mark]
    have "keeps_order (map fst (valid_entries cross_mark revised)) (map fst ?vi)"
      by (simp only: k2)
    then show ?thesis using o1 by (rule keeps_order_trans)
  qed
  show ?thesis
  proof (cases res)
    case (Inl e)
    with st o1 show ?thesis
      by (simp add: stages_def ia cr ra Let_def split: if_splits)
  next
    case (Inr revised)
    with st o1 full [OF Inr] show ?thesis
      by (auto simp add: stages_def ia cr ra Let_def split: if_splits)
  qed
qed

section \<open>Facts about the scenarios\<close>

lemma available_one_key: "available_ais_dict one_key = [(openai, [0x6B, 0x31])]"
  by (simp add: available_ais_dict_def AI_CONFIG_def strip_def isspace_def)

lemma strip_q: "strip [0x71] = [0x71]"
  by (simp add: strip_def isspace_def)

lemma script_env_sel:
  "CALL_FUNCTIONS (script_env calls keys) = calls"
  "AI_NAME (script_env calls keys) = AI_CONFIG_name"
  "api_keys (script_env calls keys) = keys"
  by (simp_all add: script_env_def)

lemma initial_fail_and_ok:
  "initial_answers (script_env fail_and_ok two_keys) [0x71] (available_ais_dict two_keys) [] [] =
     ([(openai, Some (error_prefix @ [0x34, 0x30, 0x31])), (gemini, Some [0x6F, 0x6B])],
      [(Initial, openai, [0x6B, 0x31], initial_prompt [0x71]),
       (Initial, gemini, [0x6B, 0x32], initial_prompt [0x71])])"
  by (simp add: available_two_keys script_env_sel)

lemma valid_fail_and_ok:
  "valid_entries error_marker
     [(openai, Some (error_prefix @ [0x34, 0x30, 0x31])), (gemini, Some [0x6F, 0x6B])] =
   [(gemini, [0x6F, 0x6B])]"
  by (simp add: valid_entries_def error_prefix_marker) (simp add: error_marker_def)

lemma initial_always_fails:
  "initial_answers (script_env always_fails two_keys) [0x71] (available_ais_dict two_keys) [] [] =
     ([(openai, Some (error_prefix @ [0x34, 0x30, 0x31])),
       (gemini, Some (error_prefix @ [0x34, 0x30, 0x31]))],
      [(Initial, openai, [0x6B, 0x31], initial_prompt [0x71]),
       (Initial, gemini, [0x6B, 0x32], initial_prompt [0x71])])"
  by (simp add: available_two_keys script_env_sel)

lemma valid_always_fails:
  "valid_entries error_marker
     [(openai, Some (error_prefix @ [0x34, 0x30, 0x31])),
      (gemini, Some (error_prefix @ [0x34, 0x30, 0x31]))] = []"
  by (simp add: valid_entries_def error_prefix_marker)

section \<open>C1: one entry per agent, failures isolated\<close>

text \<open>
  C1 (as amended).  For every dict \<open>available_ais\<close>, the loop of stage 1 makes exactly one
  call per agent, in the order of the dict, and \<open>responses\<close> has exactly one entry per
  agent, in the same order.  No call outcome ends the loop.  The entry of an agent is what
  its own call returned, or the error text when its own call raised; the agent is among
  the valid responses exactly when its own call returned a string that is not empty and
  does not contain the error marker.  In particular a call that raises gives a failed
  entry, whatever the other agents of the batch do.
\<close>

theorem initial_stage_entry_per_agent:
  assumes "distinct (map fst available_ais)"
  shows "case initial_answers env user_input available_ais [] [] of
           (responses, log) \<Rightarrow>
             map fst responses = map fst available_ais \<and>
             log = map (initial_call user_input) available_ais \<and>
             (\<forall>i < length available_ais.
                responses ! i =
                  (fst (available_ais ! i),
                   initial_entry (CALL_FUNCTIONS env (take i log) (fst (available_ais ! i))
                     (snd (available_ais ! i)) (initial_prompt user_input))) \<and>
                (fst (available_ais ! i) \<in> fst ` set (valid_entries error_marker responses)) =
                  (case CALL_FUNCTIONS env (take i log) (fst (available_ais ! i))
                          (snd (available_ais ! i)) (initial_prompt user_input) of
                     Raises e \<Rightarrow> False
                   | Returns r \<Rightarrow> is_valid error_marker r))"
proof -
  let ?rs = "initial_entries env user_input available_ais []"
  let ?log = "map (initial_call user_input) available_ais"
  have eq: "initial_answers env user_input available_ais [] [] = (?rs, ?log)"
    using initial_answers_eq [OF assms, of "[]" env user_input "[]"] by simp
  have keys: "map fst ?rs = map fst available_ais"
    by (rule initial_entries_keys)
  have len: "length ?rs = length available_ais"
    using keys by (metis length_map)
  have "?rs ! i =
          (fst (available_ais ! i),
           initial_entry (CALL_FUNCTIONS env (take i ?log) (fst (available_ais ! i))
             (snd (available_ais ! i)) (initial_prompt user_input))) \<and>
        (fst (available_ais ! i) \<in> fst ` set (valid_entries error_marker ?rs)) =
          (case CALL_FUNCTIONS env (take i ?log) (fst (available_ais ! i))
                  (snd (available_ais ! i)) (initial_prompt user_input) of
             Raises e \<Rightarrow> False
           | Returns r \<Rightarrow> is_valid error_marker r)"
    if i: "i < length available_ais" for i
  proof -
    let ?o = "CALL_FUNCTIONS env (take i ?log) (fst (available_ais ! i))
                (snd (available_ais ! i)) (initial_prompt user_input)"
    have nth: "?rs ! i = (fst (available_ais ! i), initial_entry ?o)"
      using initial_entries_nth [OF i, of env user_input "[]"] by (simp add: take_map)
    have "(fst (available_ais ! i), initial_entry ?o) \<in> set ?rs"
      using nth i len by (metis nth_mem)
    moreover have "distinct (map fst ?rs)" using assms keys by simp
    ultimately have "(fst (available_ais ! i) \<in> fst ` set (valid_entries error_marker ?rs)) =
        is_valid error_marker (initial_entry ?o)"
      by (rule valid_entries_mem [rotated])
    moreover have "is_valid error_marker (initial_entry ?o) =
        (case ?o of Raises e \<Rightarrow> False | Returns r \<Rightarrow> is_valid error_marker r)"
      by (cases ?o) (simp_all add: error_prefix_marker)
    ultimately show ?thesis using nth by simp
  qed
  then show ?thesis unfolding eq by (simp add: keys)
qed

text \<open>The theorem at a batch of two agents: the call of \<open>openai\<close> raises and the call of
  \<open>gemini\<close> returns a text; both have an entry and \<open>gemini\<close> alone is valid.\<close>

theorem initial_stage_entry_per_agent_witness:
  "distinct (map fst (available_ais_dict two_keys)) \<and>
   map fst (fst (initial_answers (script_env fail_and_ok two_keys) [0x71]
                   (available_ais_dict two_keys) [] [])) = [openai, gemini] \<and>
   map fst (valid_entries error_marker
              (fst (initial_answers (script_env fail_and_ok two_keys) [0x71]
                      (available_ais_dict two_keys) [] []))) = [gemini]"
proof -
  have h: "distinct (map fst (available_ais_dict two_keys))"
    by (simp add: available_two_keys)
  have v: "valid_entries error_marker
             [(openai, Some (error_prefix @ [0x34, 0x30, 0x31])), (gemini, Some [0x6F, 0x6B])] =
           [(gemini, [0x6F, 0x6B])]"
    by (simp add: valid_entries_def error_prefix_marker) (simp add: error_marker_def)
  show ?thesis
    using h initial_stage_entry_per_agent
            [where env = "script_env fail_and_ok two_keys" and user_input = "[0x71]", OF h]
    by (simp add: available_two_keys script_env_def v)
qed

text \<open>
  C1 as it is stated says that a sibling whose call succeeds has a valid entry.  In this
  batch the call of \<open>openai\<close> raises and the call of \<open>gemini\<close> succeeds and returns the empty
  string: \<open>gemini\<close> has an entry, and no entry is valid.
\<close>

theorem successful_sibling_not_valid:
  "CALL_FUNCTIONS (script_env fail_and_empty two_keys)
     [(Initial, openai, two_keys openai, initial_prompt [0x71])]
     gemini (two_keys gemini) (initial_prompt [0x71]) = Returns (Some []) \<and>
   initial_answers (script_env fail_and_empty two_keys) [0x71]
     [(openai, two_keys openai), (gemini, two_keys gemini)] [] [] =
     ([(openai, Some (error_prefix @ [0x34, 0x30, 0x31])), (gemini, Some [])],
      [(Initial, openai, two_keys openai, initial_prompt [0x71]),
       (Initial, gemini, two_keys gemini, initial_prompt [0x71])]) \<and>
   valid_entries error_marker
     [(openai, Some (error_prefix @ [0x34, 0x30, 0x31])), (gemini, Some [])] = []"
  by (simp add: script_env_def valid_entries_def error_prefix_marker)

section \<open>C2: round-robin pairing\<close>

text \<open>
  C2.  Let \<open>valid_initial\<close> hold the valid initial answers of \<open>n \<ge> 2\<close> authors (a dict, so
  its keys are distinct).  After the loop of stage 2, \<open>reviews\<close> has exactly one entry per
  author, in the order of the authors; the reviewer recorded for the author at index \<open>i\<close>
  is the author at index \<open>(i + 1) mod n\<close> and differs from the author; and the loop has
  made exactly one review call per author, to that reviewer.
\<close>

theorem cross_review_round_robin:
  assumes "distinct (map fst valid_initial)" "2 \<le> length valid_initial"
  shows "case cross_review env (map fst valid_initial) (enumerate 0 valid_initial) [] log of
           (reviews, log') \<Rightarrow>
             map fst reviews = map fst valid_initial \<and>
             (\<forall>i < length valid_initial.
                fst (snd (reviews ! i)) =
                  map fst valid_initial ! ((i + 1) mod length valid_initial) \<and>
                fst (snd (reviews ! i)) \<noteq> fst (reviews ! i)) \<and>
             take (length log) log' = log \<and>
             map (\<lambda>c. (fst c, fst (snd c))) (drop (length log) log') =
               map (\<lambda>r. (Review, fst (snd r))) reviews"
proof -
  let ?ids = "map fst valid_initial"
  let ?items = "enumerate 0 valid_initial"
  let ?rs = "review_entries env ?ids ?items log"
  have eq: "cross_review env ?ids ?items [] log = (?rs, log @ map (review_call env ?ids) ?items)"
    by (rule cross_review_stage [OF assms])
  have keys: "map fst ?rs = ?ids"
    by (simp add: review_entries_keys enumerate_keys)
  have len: "length ?rs = length valid_initial"
    using keys by (metis length_map)
  have revs: "map (fst \<circ> snd) ?rs = map (\<lambda>x. reviewer_of ?ids (fst x)) ?items"
    by (rule review_entries_reviewers)
  have nth: "fst (snd (?rs ! i)) = reviewer_of ?ids i \<and> fst (?rs ! i) = ?ids ! i"
    if i: "i < length valid_initial" for i
  proof -
    have "fst (snd (?rs ! i)) = map (fst \<circ> snd) ?rs ! i" using i len by simp
    also have "\<dots> = reviewer_of ?ids i" using i by (simp add: revs nth_enumerate_eq)
    finally have a: "fst (snd (?rs ! i)) = reviewer_of ?ids i" .
    have "fst (?rs ! i) = map fst ?rs ! i" using i len by simp
    then have "fst (?rs ! i) = ?ids ! i" by (simp only: keys)
    with a show ?thesis by simp
  qed
  have pairs: "fst (snd (?rs ! i)) = ?ids ! ((i + 1) mod length valid_initial) \<and>
               fst (snd (?rs ! i)) \<noteq> fst (?rs ! i)"
    if i: "i < length valid_initial" for i
  proof -
    have "?ids ! i \<noteq> reviewer_of ?ids i"
      using next_differs [OF assms(1), of i] assms(2) i by simp
    with nth [OF i] show ?thesis by (simp add: reviewer_of_def)
  qed
  have calls: "map (\<lambda>c. (fst c, fst (snd c))) (map (review_call env ?ids) ?items) =
               map (\<lambda>r. (Review, fst (snd r))) ?rs"
  proof -
    have "map (\<lambda>c. (fst c, fst (snd c))) (map (review_call env ?ids) ?items) =
          map (\<lambda>x. (Review, reviewer_of ?ids (fst x))) ?items"
      by (simp add: review_call_def split_def)
    also have "\<dots> = map (\<lambda>r. (Review, r)) (map (fst \<circ> snd) ?rs)"
      by (simp add: revs)
    finally show ?thesis by (simp add: comp_def)
  qed
  have c2: "\<forall>i < length valid_initial.
              fst (snd (?rs ! i)) = ?ids ! ((i + 1) mod length valid_initial) \<and>
              fst (snd (?rs ! i)) \<noteq> fst (?rs ! i)"
    using pairs by blast
  have c3: "take (length log) (log @ map (review_call env ?ids) ?items) = log"
    by simp
  have c4: "map (\<lambda>c. (fst c, fst (snd c)))
              (drop (length log) (log @ map (review_call env ?ids) ?items)) =
            map (\<lambda>r. (Review, fst (snd r))) ?rs"
    using calls by simp
  show ?thesis
    unfolding eq prod.case by (intro conjI) (fact keys, fact c2, fact c3, fact c4)
qed

text \<open>The theorem at five authors: the reviewers are the authors rotated by one.\<close>

theorem cross_review_round_robin_witness:
  "distinct (map fst (answers 5)) \<and> 2 \<le> length (answers 5) \<and>
   map fst (fst (cross_review numbered_env (map fst (answers 5)) (enumerate 0 (answers 5)) [] [])) =
     [0, 1, 2, 3, 4] \<and>
   map (fst \<circ> snd)
     (fst (cross_review numbered_env (map fst (answers 5)) (enumerate 0 (answers 5)) [] [])) =
     [1, 2, 3, 4, 0]"
proof -
  have a: "answers 5 = [(0, [0x61]), (1, [0x61]), (2, [0x61]), (3, [0x61]), (4, [0x61])]"
    by (simp add: answers_def upt_rec)
  have h1: "distinct (map fst (answers 5))" by (simp add: a)
  have h2: "2 \<le> length (answers 5)" by (simp add: a)
  have ev: "fst (cross_review numbered_env (map fst (answers 5)) (enumerate 0 (answers 5)) [] []) =
      [(0, 1, Some [0x6F, 0x6B]), (1, 2, Some [0x6F, 0x6B]), (2, 3, Some [0x6F, 0x6B]),
       (3, 4, Some [0x6F, 0x6B]), (4, 0, Some [0x6F, 0x6B])]"
    by (simp add: a numbered_env_def Let_def)
  show ?thesis
    using h1 h2 cross_review_round_robin [where env = numbered_env and log = "[]", OF h1 h2]
    by (simp add: ev)
qed

section \<open>C3: deep mode with a single valid initial answer\<close>

text \<open>
  C3 (as amended).  In deep mode with at least two configured agents, when exactly one
  initial answer is valid, the script makes no review call and no revision call: after the
  initial calls, one per agent, its only call is the synthesis call, made by the agent that
  holds the valid answer, with a prompt built from that answer alone.  The script does not
  stop at this point.  It ends with the consensus report when the synthesis call returns,
  and with the error of that call when it raises.
\<close>

theorem deep_mode_degrades:
  assumes "strip user_input \<noteq> []" "2 \<le> length ais"
    and "initial_answers env user_input ais [] [] = (initial_responses, log)"
    and "valid_entries error_marker initial_responses = [(ai_id, text)]"
  shows "analysis env True user_input ais =
           (case CALL_FUNCTIONS env log ai_id (api_keys env ai_id)
                   (consensus_prompt user_input (response_text (AI_NAME env ai_id) text)) of
              Returns consensus \<Rightarrow> Report consensus
            | Raises e \<Rightarrow> ReportError e,
            log @ [(Synthesis, ai_id, api_keys env ai_id,
                    consensus_prompt user_input (response_text (AI_NAME env ai_id) text))]) \<and>
         map fst (snd (analysis env True user_input ais)) =
           replicate (length ais) Initial @ [Synthesis]"
proof -
  have ne: "ais \<noteq> []" using assms(2) by auto
  have n2: "\<not> length ais < 2" using assms(2) by simp
  have st: "stages env True user_input ais = (Inr [(ai_id, text)], log)"
    using assms(1) ne n2 by (simp add: stages_def assms(3,4))
  have an: "analysis env True user_input ais =
           (case CALL_FUNCTIONS env log ai_id (api_keys env ai_id)
                   (consensus_prompt user_input (response_text (AI_NAME env ai_id) text)) of
              Returns consensus \<Rightarrow> Report consensus
            | Raises e \<Rightarrow> ReportError e,
            log @ [(Synthesis, ai_id, api_keys env ai_id,
                    consensus_prompt user_input (response_text (AI_NAME env ai_id) text))])"
    by (simp add: analysis_def st consensus_report_def response_texts_def Let_def)
  have "log = map (initial_call user_input) ais"
    using initial_answers_log [of env user_input ais "[]" "[]"] assms(3) by simp
  then have "map fst log = replicate (length ais) Initial"
    by (simp add: initial_call_def split_def comp_def map_replicate_const)
  then show ?thesis unfolding an by simp
qed

text \<open>The theorem in deep mode with two agents: the call of \<open>openai\<close> raises, \<open>gemini\<close>
  answers and then writes the report.\<close>

theorem deep_mode_degrades_witness:
  "strip [0x71] \<noteq> [] \<and> 2 \<le> length (available_ais_dict two_keys) \<and>
   valid_entries error_marker
     (fst (initial_answers (script_env fail_and_ok two_keys) [0x71]
             (available_ais_dict two_keys) [] [])) = [(gemini, [0x6F, 0x6B])] \<and>
   fst (analysis (script_env fail_and_ok two_keys) True [0x71] (available_ais_dict two_keys)) =
     Report (Some [0x6F, 0x6B]) \<and>
   map fst (snd (analysis (script_env fail_and_ok two_keys) True [0x71]
                   (available_ais_dict two_keys))) = [Initial, Initial, Synthesis]"
proof -
  have h1: "strip [0x71] \<noteq> []" by (simp add: strip_q)
  have h2: "2 \<le> length (available_ais_dict two_keys)" by (simp add: available_two_keys)
  note h3 = initial_fail_and_ok
  note h4 = valid_fail_and_ok
  show ?thesis
    using h1 h2 deep_mode_degrades [OF h1 h2 h3 h4]
    by (simp add: h3 h4 available_two_keys script_env_sel)
qed

text \<open>
  C3 as it is stated says that such a run still ends with the report.  In this run of deep
  mode the answer of \<open>gemini\<close> is the only valid initial answer, the script goes on to the
  synthesis, and the synthesis call raises: the run ends with the error of that call.
\<close>

theorem degraded_run_synthesis_raises:
  "valid_entries error_marker
     (fst (initial_answers (script_env synthesis_fails two_keys) [0x71]
             (available_ais_dict two_keys) [] [])) = [(gemini, [0x6F, 0x6B])] \<and>
   fst (app synthesis_fails two_keys True [0x71]) = ReportError [0x35, 0x30, 0x30] \<and>
   map fst (snd (app synthesis_fails two_keys True [0x71])) = [Initial, Initial, Synthesis]"
proof -
  have i: "initial_answers (script_env synthesis_fails two_keys) [0x71]
             (available_ais_dict two_keys) [] [] =
     ([(openai, Some (error_prefix @ [0x34, 0x30, 0x31])), (gemini, Some [0x6F, 0x6B])],
      [(Initial, openai, [0x6B, 0x31], initial_prompt [0x71]),
       (Initial, gemini, [0x6B, 0x32], initial_prompt [0x71])])"
    by (simp add: available_two_keys script_env_sel)
  have a: "app synthesis_fails two_keys True [0x71] =
      (ReportError [0x35, 0x30, 0x30],
       [(Initial, openai, [0x6B, 0x31], initial_prompt [0x71]),
        (Initial, gemini, [0x6B, 0x32], initial_prompt [0x71]),
        (Synthesis, gemini, [0x6B, 0x32],
         consensus_prompt [0x71] (response_text (AI_CONFIG_name gemini) [0x6F, 0x6B]))])"
    unfolding app_def analysis_def stages_def script_env_def [symmetric] i
    by (simp add: strip_q valid_fail_and_ok available_two_keys consensus_report_def
        response_texts_def script_env_sel Let_def del: AI_CONFIG_name.simps)
  show ?thesis by (simp add: i valid_fail_and_ok a)
qed

section \<open>C4: the revision stage\<close>

text \<open>
  What stage 3 does when no stored review is \<open>None\<close>: the loop ends normally and
  \<open>revised_responses\<close> has exactly one entry per author; an author without a review, or
  with a review that contains U+274C (as every failed review does), keeps the initial
  answer and is not called; every other author is called once, and the entry is what the
  call returns, or the initial answer when the call raises.
\<close>

lemma revision_keeps_every_author:
  assumes "distinct (map fst valid_initial)"
    and "\<forall>x \<in> set valid_initial. \<not> review_is_none reviews (fst x)"
  shows "revise_answers env reviews valid_initial [] log =
           (Inr (revise_entries env reviews valid_initial log),
            log @ revise_calls env reviews valid_initial log) \<and>
         map fst (revise_entries env reviews valid_initial log) = map fst valid_initial"
  using revise_answers_eq [OF assms(2,1), of "[]" env log]
  by (simp add: revise_entries_keys)

lemma revision_carries_forward:
  assumes d: "distinct (map fst valid_initial)"
    and mem: "(author_id, initial) \<in> set valid_initial"
    and rev: "map_of reviews author_id = None \<or>
              (\<exists>reviewer_id review_text.
                 map_of reviews author_id = Some (reviewer_id, Some review_text) \<and>
                 py_in cross_mark review_text)"
  shows "(author_id, Some initial) \<in> set (revise_entries env reviews valid_initial log) \<and>
         (\<forall>c \<in> set (revise_calls env reviews valid_initial log). fst (snd c) \<noteq> author_id)"
proof -
  have one: "revise_one env reviews (author_id, initial) h = (Some initial, [])" for h
    using rev by auto
  from revise_entries_mem [OF mem, of env reviews log]
  have a: "(author_id, Some initial) \<in> set (revise_entries env reviews valid_initial log)"
    by (simp only: one fst_conv) blast
  have b: "fst (snd c) \<noteq> author_id"
    if c: "c \<in> set (revise_calls env reviews valid_initial log)" for c
  proof
    assume eq: "fst (snd c) = author_id"
    from revise_calls_authors [OF c] obtain x h
      where x: "x \<in> set valid_initial" and sx: "snd (revise_one env reviews x h) = [c]"
      by blast
    obtain a i where xa: "x = (a, i)" by (cases x)
    from sx have "fst (snd c) = a"
      by (auto simp: xa split: option.splits prod.splits if_splits)
    with eq have "a = author_id" by simp
    with x xa have "(author_id, i) \<in> set valid_initial" by simp
    from eq_key_imp_eq_value [OF d mem this] have "i = initial" by simp
    with sx xa \<open>a = author_id\<close> one [of h] show False by (simp only: snd_conv) simp
  qed
  from a b show ?thesis by blast
qed

lemma revision_call_or_fallback:
  assumes mem: "(author_id, initial) \<in> set valid_initial"
    and rev: "map_of reviews author_id = Some (reviewer_id, Some review_text)"
    and ok: "\<not> py_in cross_mark review_text"
  shows "\<exists>h. (author_id,
              revised_entry initial
                (CALL_FUNCTIONS env h author_id (api_keys env author_id)
                   (revise_prompt initial (AI_NAME env reviewer_id) review_text)))
           \<in> set (revise_entries env reviews valid_initial log)"
proof -
  have one: "fst (revise_one env reviews (author_id, initial) h) =
      revised_entry initial
        (CALL_FUNCTIONS env h author_id (api_keys env author_id)
           (revise_prompt initial (AI_NAME env reviewer_id) review_text))" for h
    using rev ok by simp
  from revise_entries_mem [OF mem, of env reviews log]
  show ?thesis by (simp only: one fst_conv)
qed

text \<open>
  C4.  The claim is that no author with a valid initial answer is lost at the revision
  stage.  In this run of deep mode both agents give a valid initial answer and both review
  calls succeed and return \<open>None\<close>.  The test of line 387 then raises \<open>TypeError\<close> for the
  first author: the script ends there, with no revised response for any author and no
  revision or synthesis call.
\<close>

theorem none_review_ends_the_script:
  "app review_returns_none two_keys True [0x71] =
     (Uncaught TypeError,
      [(Initial, openai, [0x6B, 0x31], initial_prompt [0x71]),
       (Initial, gemini, [0x6B, 0x32], initial_prompt [0x71]),
       (Review, gemini, [0x6B, 0x32], review_prompt (AI_CONFIG_name openai) [0x61]),
       (Review, openai, [0x6B, 0x31], review_prompt (AI_CONFIG_name gemini) [0x61])])"
proof -
  let ?env = "\<lparr>CALL_FUNCTIONS = review_returns_none, AI_NAME = AI_CONFIG_name,
               api_keys = two_keys\<rparr>"
  let ?log = "[(Initial, openai, [0x6B, 0x31], initial_prompt [0x71]),
              (Initial, gemini, [0x6B, 0x32], initial_prompt [0x71])]"
  have i: "initial_answers ?env [0x71] (available_ais_dict two_keys) [] [] =
      ([(openai, Some [0x61]), (gemini, Some [0x61])], ?log)"
    by (simp add: available_two_keys)
  have v: "valid_entries error_marker [(openai, Some [0x61]), (gemini, Some [0x61])] =
      [(openai, [0x61]), (gemini, [0x61])]"
    by (simp add: valid_entries_def error_marker_def)
  have r: "cross_review ?env [openai, gemini]
        (enumerate 0 [(openai, [0x61]), (gemini, [0x61])]) [] ?log =
      ([(openai, gemini, None), (gemini, openai, None)],
       ?log @ [(Review, gemini, [0x6B, 0x32], review_prompt (AI_CONFIG_name openai) [0x61]),
               (Review, openai, [0x6B, 0x31], review_prompt (AI_CONFIG_name gemini) [0x61])])"
    by (simp add: Let_def del: AI_CONFIG_name.simps)
  have s: "revise_answers ?env [(openai, gemini, None), (gemini, openai, None)]
        [(openai, [0x61]), (gemini, [0x61])] [] log = (Inl TypeError, log)" for log
    by simp
  show ?thesis
    unfolding app_def analysis_def stages_def i
    by (simp add: strip_q v available_two_keys r s del: AI_CONFIG_name.simps)
qed

section \<open>C5: fallback answers after the revision stage\<close>

text \<open>
  C5.  The claim is that an author whose review failed, and whose initial answer was
  therefore carried forward, is among the valid responses after the revision stage.  In
  this run of deep mode both initial answers are valid for the filter of lines 338-341,
  and both review calls raise, so both initial answers are carried forward.  The filter of
  lines 416-419 looks for U+274C alone: the answer of \<open>openai\<close>, which contains it, is not
  among the valid responses that reach the synthesis.
\<close>

theorem fallback_with_cross_mark_is_dropped:
  "valid_entries error_marker
     (fst (initial_answers (script_env cross_in_answer two_keys) [0x71]
             (available_ais_dict two_keys) [] [])) =
     [(openai, [0x274C, 0x20, 0x78]), (gemini, [0x6F, 0x6B])] \<and>
   stages (script_env cross_in_answer two_keys) True [0x71] (available_ais_dict two_keys) =
     (Inr [(gemini, [0x6F, 0x6B])],
      [(Initial, openai, [0x6B, 0x31], initial_prompt [0x71]),
       (Initial, gemini, [0x6B, 0x32], initial_prompt [0x71]),
       (Review, gemini, [0x6B, 0x32],
        review_prompt (AI_CONFIG_name openai) [0x274C, 0x20, 0x78]),
       (Review, openai, [0x6B, 0x31], review_prompt (AI_CONFIG_name gemini) [0x6F, 0x6B])])"
proof -
  let ?env = "script_env cross_in_answer two_keys"
  let ?log = "[(Initial, openai, [0x6B, 0x31], initial_prompt [0x71]),
              (Initial, gemini, [0x6B, 0x32], initial_prompt [0x71])]"
  let ?log2 = "?log @ [(Review, gemini, [0x6B, 0x32],
                        review_prompt (AI_CONFIG_name openai) [0x274C, 0x20, 0x78]),
                       (Review, openai, [0x6B, 0x31],
                        review_prompt (AI_CONFIG_name gemini) [0x6F, 0x6B])]"
  let ?vi = "[(openai, [0x274C, 0x20, 0x78]), (gemini, [0x6F, 0x6B])]"
  let ?rv = "[(openai, gemini, Some (review_error_prefix @ [0x34, 0x30, 0x31])),
             (gemini, openai, Some (review_error_prefix @ [0x34, 0x30, 0x31]))]"
  have i: "initial_answers ?env [0x71] (available_ais_dict two_keys) [] [] =
      ([(openai, Some [0x274C, 0x20, 0x78]), (gemini, Some [0x6F, 0x6B])], ?log)"
    by (simp add: available_two_keys script_env_sel)
  have v: "valid_entries error_marker
             [(openai, Some [0x274C, 0x20, 0x78]), (gemini, Some [0x6F, 0x6B])] = ?vi"
    by (simp add: valid_entries_def error_marker_def)
  have f: "valid_entries cross_mark
             [(openai, Some [0x274C, 0x20, 0x78]), (gemini, Some [0x6F, 0x6B])] =
           [(gemini, [0x6F, 0x6B])]"
    by (simp add: valid_entries_def cross_mark_def)
  have "stages ?env True [0x71] (available_ais_dict two_keys) = (Inr [(gemini, [0x6F, 0x6B])], ?log2)"
    unfolding stages_def i
    by (simp add: strip_q v available_two_keys script_env_sel Let_def review_error_cross f
        del: AI_CONFIG_name.simps)
  then show ?thesis by (simp add: i v)
qed

section \<open>C6: nothing valid, no synthesis\<close>

text \<open>
  C6.  When the stages leave no valid response, the script stops at line 428 with the
  warning that no report can be made, and the log of the run holds no synthesis call.
\<close>

theorem no_valid_responses_no_synthesis:
  assumes "stages env is_deep_mode user_input ais = (Inr [], log)"
  shows "analysis env is_deep_mode user_input ais = (Stopped NoValidResponses, log) \<and>
         (\<forall>c \<in> set log. fst c \<noteq> Synthesis)"
proof -
  have "analysis env is_deep_mode user_input ais = (Stopped NoValidResponses, log)"
    by (simp add: analysis_def assms consensus_report_def)
  moreover have "\<forall>c \<in> set log. fst c \<noteq> Synthesis"
    using stages_calls [of env is_deep_mode user_input ais] assms by simp
  ultimately show ?thesis by simp
qed

text \<open>The theorem in plain mode with two agents whose calls both raise.\<close>

theorem no_valid_responses_no_synthesis_witness:
  "stages (script_env always_fails two_keys) False [0x71] (available_ais_dict two_keys) =
     (Inr [], [(Initial, openai, [0x6B, 0x31], initial_prompt [0x71]),
               (Initial, gemini, [0x6B, 0x32], initial_prompt [0x71])]) \<and>
   fst (analysis (script_env always_fails two_keys) False [0x71] (available_ais_dict two_keys)) =
     Stopped NoValidResponses \<and>
   map fst (snd (analysis (script_env always_fails two_keys) False [0x71]
                   (available_ais_dict two_keys))) = [Initial, Initial]"
proof -
  have h: "stages (script_env always_fails two_keys) False [0x71] (available_ais_dict two_keys) =
     (Inr [], [(Initial, openai, [0x6B, 0x31], initial_prompt [0x71]),
               (Initial, gemini, [0x6B, 0x32], initial_prompt [0x71])])"
    by (simp add: stages_def strip_q initial_always_fails valid_always_fails)
      (simp add: available_two_keys)
  show ?thesis
    using h no_valid_responses_no_synthesis [OF h] by simp
qed

section \<open>C7: the synthesizer\<close>

text \<open>
  C7.  When the stages leave at least one valid response, the synthesizer is the first
  agent, in the order of \<open>available_ais\<close>, that holds a valid final response.  The script
  makes exactly one synthesis call, to that agent: when the call returns, the run ends
  with the consensus report; when it raises, the run ends with the error of the call, and
  no other agent is asked.
\<close>

theorem synthesizer_is_first_valid:
  assumes "distinct (map fst ais)"
    and "stages env is_deep_mode user_input ais = (Inr valid_responses, log)"
    and "valid_responses \<noteq> []"
  shows "find (\<lambda>k. k \<in> fst ` set valid_responses) (map fst ais) = Some (fst (hd valid_responses)) \<and>
         analysis env is_deep_mode user_input ais =
           (case CALL_FUNCTIONS env log (fst (hd valid_responses))
                   (api_keys env (fst (hd valid_responses)))
                   (consensus_prompt user_input (response_texts env valid_responses)) of
              Returns consensus \<Rightarrow> Report consensus
            | Raises e \<Rightarrow> ReportError e,
            log @ [(Synthesis, fst (hd valid_responses), api_keys env (fst (hd valid_responses)),
                    consensus_prompt user_input (response_texts env valid_responses))]) \<and>
         (\<forall>c \<in> set log. fst c \<noteq> Synthesis)"
proof -
  obtain s t rest where v: "valid_responses = (s, t) # rest"
    using assms(3) by (cases valid_responses) auto
  have "keeps_order (map fst valid_responses) (map fst ais)"
    by (rule stages_keys [OF assms(1,2)])
  then have "keeps_order (s # map fst rest) (map fst ais)" by (simp add: v)
  from keeps_order_first [OF this]
  have f: "find (\<lambda>k. k \<in> fst ` set valid_responses) (map fst ais) = Some (fst (hd valid_responses))"
    by (simp add: v)
  have a: "analysis env is_deep_mode user_input ais =
           (case CALL_FUNCTIONS env log (fst (hd valid_responses))
                   (api_keys env (fst (hd valid_responses)))
                   (consensus_prompt user_input (response_texts env valid_responses)) of
              Returns consensus \<Rightarrow> Report consensus
            | Raises e \<Rightarrow> ReportError e,
            log @ [(Synthesis, fst (hd valid_responses), api_keys env (fst (hd valid_responses)),
                    consensus_prompt user_input (response_texts env valid_responses))])"
    by (simp add: analysis_def assms(2) consensus_report_def v Let_def)
  have c: "\<forall>c \<in> set log. fst c \<noteq> Synthesis"
    using stages_calls [of env is_deep_mode user_input ais] assms(2) by simp
  from f a c show ?thesis by (intro conjI)
qed

text \<open>The theorem in plain mode with two agents: the call of \<open>openai\<close> raises, so \<open>gemini\<close>
  is the first agent with a valid response and writes the report.\<close>

theorem synthesizer_is_first_valid_witness:
  "distinct (map fst (available_ais_dict two_keys)) \<and>
   stages (script_env fail_and_ok two_keys) False [0x71] (available_ais_dict two_keys) =
     (Inr [(gemini, [0x6F, 0x6B])],
      [(Initial, openai, [0x6B, 0x31], initial_prompt [0x71]),
       (Initial, gemini, [0x6B, 0x32], initial_prompt [0x71])]) \<and>
   find (\<lambda>k. k \<in> fst ` set [(gemini, [0x6F, 0x6B])]) (map fst (available_ais_dict two_keys)) =
     Some gemini \<and>
   fst (analysis (script_env fail_and_ok two_keys) False [0x71] (available_ais_dict two_keys)) =
     Report (Some [0x6F, 0x6B]) \<and>
   map (\<lambda>c. (fst c, fst (snd c)))
     (snd (analysis (script_env fail_and_ok two_keys) False [0x71] (available_ais_dict two_keys))) =
     [(Initial, openai), (Initial, gemini), (Synthesis, gemini)]"
proof -
  have h1: "distinct (map fst (available_ais_dict two_keys))"
    by (simp add: available_two_keys)
  have h2: "stages (script_env fail_and_ok two_keys) False [0x71] (available_ais_dict two_keys) =
     (Inr [(gemini, [0x6F, 0x6B])],
      [(Initial, openai, [0x6B, 0x31], initial_prompt [0x71]),
       (Initial, gemini, [0x6B, 0x32], initial_prompt [0x71])])"
    by (simp add: stages_def strip_q initial_fail_and_ok valid_fail_and_ok)
      (simp add: available_two_keys)
  have h3: "[(gemini, [0x6F, 0x6B])] \<noteq> ([] :: (ai_id, pystr) dict)" by simp
  show ?thesis
    using h1 h2 synthesizer_is_first_valid [OF h1 h2 h3]
    by (simp add: script_env_sel available_two_keys)
qed

section \<open>C8: deep mode needs two agents\<close>

text \<open>
  C8.  In deep mode with fewer than two configured agents the script stops at one of its
  guards (no input, no key at all, or fewer than two agents) and has made no call.
\<close>

theorem deep_mode_needs_two_agents:
  assumes "length ais < 2"
  shows "analysis env True user_input ais =
           (Stopped (if strip user_input = [] then NoInput
                     else if ais = [] then NoApiKey else TooFewAIs), [])"
  using assms by (simp add: analysis_def stages_def)

text \<open>The theorem in deep mode with a single key.\<close>

theorem deep_mode_needs_two_agents_witness:
  "length (available_ais_dict one_key) < 2 \<and>
   analysis (script_env always_ok one_key) True [0x71] (available_ais_dict one_key) =
     (Stopped TooFewAIs, [])"
proof -
  have h: "length (available_ais_dict one_key) < 2" by (simp add: available_one_key)
  show ?thesis
    using h deep_mode_needs_two_agents [OF h, of "script_env always_ok one_key" "[0x71]"]
    by (simp add: strip_q available_one_key)
qed

section \<open>C10: None and the empty string are not valid\<close>

text \<open>
  C10 (as amended).  When the call of an agent returns \<open>None\<close> or the empty string, the
  entry stored for the agent (by the initial stage or by the revision stage) is that value,
  and neither the filter of lines 304-307 and 338-341 nor the filter of lines 416-419 keeps
  the agent.  At the initial stage a call that raises is treated alike: the error text
  stored for it is not valid.  At the revision stage a call that raises is treated
  otherwise: the entry stored for it is the initial answer of the author.
\<close>

theorem none_or_empty_answer_is_not_valid:
  assumes "distinct (map fst responses)"
    and "(ai_id, v) \<in> set responses"
    and "v = initial_entry (Returns r) \<or> v = revised_entry initial (Returns r)"
    and "r = None \<or> r = Some []"
  shows "ai_id \<notin> fst ` set (valid_entries error_marker responses) \<and>
         ai_id \<notin> fst ` set (valid_entries cross_mark responses) \<and>
         \<not> is_valid error_marker (initial_entry (Raises e)) \<and>
         revised_entry initial (Raises e) = Some initial"
proof -
  from assms(3) have v: "v = r" by auto
  with assms(4) have "\<not> is_valid marker v" for marker by auto
  with valid_entries_mem [OF assms(1,2)]
  have "ai_id \<notin> fst ` set (valid_entries marker responses)" for marker by simp
  then show ?thesis by (simp add: error_prefix_marker)
qed

text \<open>The theorem at three entries: \<open>None\<close>, the empty string and a text.\<close>

theorem none_or_empty_answer_is_not_valid_witness:
  "distinct (map fst [(openai, None), (gemini, Some []), (claude, Some [0x6F, 0x6B])]) \<and>
   (gemini, Some []) \<in> set [(openai, None), (gemini, Some []), (claude, Some [0x6F, 0x6B])] \<and>
   Some [] = initial_entry (Returns (Some [])) \<and>
   map fst (valid_entries error_marker
              [(openai, None), (gemini, Some []), (claude, Some [0x6F, 0x6B])]) = [claude] \<and>
   map fst (valid_entries cross_mark
              [(openai, None), (gemini, Some []), (claude, Some [0x6F, 0x6B])]) = [claude]"
proof -
  have h1: "distinct (map fst [(openai, None), (gemini, Some []), (claude, Some [0x6F, 0x6B])])"
    by simp
  have h2: "(gemini, Some []) \<in> set [(openai, None), (gemini, Some []), (claude, Some [0x6F, 0x6B])]"
    by simp
  have h3: "Some [] = initial_entry (Returns (Some [])) \<or>
            Some [] = revised_entry [] (Returns (Some []))"
    by simp
  have h4: "Some [] = None \<or> Some [] = Some ([] :: pystr)" by simp
  show ?thesis
    using h1 h2 none_or_empty_answer_is_not_valid [OF h1 h2 h3 h4]
    by (simp add: valid_entries_def error_marker_def cross_mark_def)
qed

text \<open>
  C10 as it is stated says that the post-revision filter treats a revision call that
  returns \<open>None\<close> exactly like one that fails.  In these two runs of deep mode everything is
  the same up to the revision call of \<open>openai\<close>.  Where that call raises, \<open>openai\<close> keeps
  its initial answer and is among the valid responses; where it returns \<open>None\<close>, \<open>openai\<close>
  is not.
\<close>

theorem failed_revision_kept_none_revision_dropped:
  "stages (script_env revision_raises two_keys) True [0x71] (available_ais_dict two_keys) =
     (Inr [(openai, [0x61]), (gemini, [0x62])],
      [(Initial, openai, [0x6B, 0x31], initial_prompt [0x71]),
       (Initial, gemini, [0x6B, 0x32], initial_prompt [0x71]),
       (Review, gemini, [0x6B, 0x32], review_prompt (AI_CONFIG_name openai) [0x61]),
       (Review, openai, [0x6B, 0x31], review_prompt (AI_CONFIG_name gemini) [0x62]),
       (Revise, openai, [0x6B, 0x31], revise_prompt [0x61] (AI_CONFIG_name gemini) [0x63]),
       (Revise, gemini, [0x6B, 0x32], revise_prompt [0x62] (AI_CONFIG_name openai) [0x63])]) \<and>
   stages (script_env revision_returns_none two_keys) True [0x71] (available_ais_dict two_keys) =
     (Inr [(gemini, [0x62])],
      [(Initial, openai, [0x6B, 0x31], initial_prompt [0x71]),
       (Initial, gemini, [0x6B, 0x32], initial_prompt [0x71]),
       (Review, gemini, [0x6B, 0x32], review_prompt (AI_CONFIG_name openai) [0x61]),
       (Review, openai, [0x6B, 0x31], review_prompt (AI_CONFIG_name gemini) [0x62]),
       (Revise, openai, [0x6B, 0x31], revise_prompt [0x61] (AI_CONFIG_name gemini) [0x63]),
       (Revise, gemini, [0x6B, 0x32], revise_prompt [0x62] (AI_CONFIG_name openai) [0x63])])"
proof -
  have i1: "initial_answers (script_env revision_raises two_keys) [0x71]
             (available_ais_dict two_keys) [] [] =
     ([(openai, Some [0x61]), (gemini, Some [0x62])],
      [(Initial, openai, [0x6B, 0x31], initial_prompt [0x71]),
       (Initial, gemini, [0x6B, 0x32], initial_prompt [0x71])])"
    by (simp add: available_two_keys script_env_sel)
  have i2: "initial_answers (script_env revision_returns_none two_keys) [0x71]
             (available_ais_dict two_keys) [] [] =
     ([(openai, Some [0x61]), (gemini, Some [0x62])],
      [(Initial, openai, [0x6B, 0x31], initial_prompt [0x71]),
       (Initial, gemini, [0x6B, 0x32], initial_prompt [0x71])])"
    by (simp add: available_two_keys script_env_sel)
  have s1: "stages (script_env revision_raises two_keys) True [0x71] (available_ais_dict two_keys) =
     (Inr [(openai, [0x61]), (gemini, [0x62])],
      [(Initial, openai, [0x6B, 0x31], initial_prompt [0x71]),
       (Initial, gemini, [0x6B, 0x32], initial_prompt [0x71]),
       (Review, gemini, [0x6B, 0x32], review_prompt (AI_CONFIG_name openai) [0x61]),
       (Review, openai, [0x6B, 0x31], review_prompt (AI_CONFIG_name gemini) [0x62]),
       (Revise, openai, [0x6B, 0x31], revise_prompt [0x61] (AI_CONFIG_name gemini) [0x63]),
       (Revise, gemini, [0x6B, 0x32], revise_prompt [0x62] (AI_CONFIG_name openai) [0x63])])"
    unfolding stages_def i1
    by (simp add: strip_q available_two_keys script_env_sel Let_def cross_mark_def error_marker_def
        valid_entries_def del: AI_CONFIG_name.simps)
  have s2: "stages (script_env revision_returns_none two_keys) True [0x71]
              (available_ais_dict two_keys) =
     (Inr [(gemini, [0x62])],
      [(Initial, openai, [0x6B, 0x31], initial_prompt [0x71]),
       (Initial, gemini, [0x6B, 0x32], initial_prompt [0x71]),
       (Review, gemini, [0x6B, 0x32], review_prompt (AI_CONFIG_name openai) [0x61]),
       (Review, openai, [0x6B, 0x31], review_prompt (AI_CONFIG_name gemini) [0x62]),
       (Revise, openai, [0x6B, 0x31], revise_prompt [0x61] (AI_CONFIG_name gemini) [0x63]),
       (Revise, gemini, [0x6B, 0x32], revise_prompt [0x62] (AI_CONFIG_name openai) [0x63])])"
    unfolding stages_def i2
    by (simp add: strip_q available_two_keys script_env_sel Let_def cross_mark_def error_marker_def
        valid_entries_def del: AI_CONFIG_name.simps)
  from s1 s2 show ?thesis by (rule conjI)
qed

end
